theory Spec2Isabelle
  imports Main
begin

section \<open>Strings\<close>

text \<open>
  JavaScript strings are modelled as lists of 8-bit characters (code units below 256).
  The helpers below are the string operations that \<^verbatim>\<open>packLDrawModel.mjs\<close> calls:
  \<^verbatim>\<open>startsWith\<close>, \<^verbatim>\<open>endsWith\<close>, \<^verbatim>\<open>toLowerCase\<close>, \<^verbatim>\<open>trim\<close>, \<^verbatim>\<open>split\<close>, and the three
  regular-expression replacements and the one match of the source.
\<close>

abbreviation LF :: char where "LF \<equiv> CHR 0x0A"
abbreviation CR :: char where "CR \<equiv> CHR 0x0D"
abbreviation TAB :: char where "TAB \<equiv> CHR 0x09"
abbreviation BACKSLASH :: char where "BACKSLASH \<equiv> CHR 0x5C"

definition startsWith :: "string \<Rightarrow> string \<Rightarrow> bool" where
  "startsWith s p = (take (length p) s = p)"

definition endsWith :: "string \<Rightarrow> string \<Rightarrow> bool" where
  "endsWith s p = (length p \<le> length s \<and> drop (length s - length p) s = p)"

definition lower_char :: "char \<Rightarrow> char" where
  \<comment> \<open>\<^verbatim>\<open>toLowerCase\<close> on one code unit below 256: A-Z and the Latin-1 capitals.\<close>
  "lower_char c =
     (let n = (of_char c :: nat)
      in if (65 \<le> n \<and> n \<le> 90) \<or> (192 \<le> n \<and> n \<le> 222 \<and> n \<noteq> 215)
         then char_of (n + 32) else c)"

definition toLowerCase :: "string \<Rightarrow> string" where
  "toLowerCase s = map lower_char s"

definition is_trim_space :: "char \<Rightarrow> bool" where
  \<comment> \<open>white space and line terminators that \<^verbatim>\<open>trim\<close> removes, below 256\<close>
  "is_trim_space c = (c \<in> set [TAB, LF, CHR 0x0B, CHR 0x0C, CR, CHR '' '', CHR 0xA0])"

definition trim :: "string \<Rightarrow> string" where
  "trim s = rev (dropWhile is_trim_space (rev (dropWhile is_trim_space s)))"

definition slashes :: "string \<Rightarrow> string" where
  \<comment> \<open>\<^verbatim>\<open>.replace( /\\/g, '/' )\<close>\<close>
  "slashes s = map (\<lambda>c. if c = BACKSLASH then CHR ''/'' else c) s"

fun replace_crlf :: "string \<Rightarrow> string" where
  \<comment> \<open>\<^verbatim>\<open>.replace( /\r\n/g, '\n' )\<close>\<close>
  "replace_crlf [] = []"
| "replace_crlf [c] = [c]"
| "replace_crlf (c # d # cs) =
     (if c = CR \<and> d = LF then LF # replace_crlf cs else c # replace_crlf (d # cs))"

fun split_on :: "char \<Rightarrow> string \<Rightarrow> string list" where
  \<comment> \<open>\<^verbatim>\<open>s.split(d)\<close> for a one-character separator; the empty string gives one empty piece\<close>
  "split_on d [] = [[]]"
| "split_on d (c # cs) =
     (if c = d then [] # split_on d cs
      else (case split_on d cs of
              [] \<Rightarrow> [[c]]
            | x # xs \<Rightarrow> (c # x) # xs))"

fun join_with :: "string \<Rightarrow> string list \<Rightarrow> string" where
  "join_with d [] = []"
| "join_with d [x] = x"
| "join_with d (x # y # ys) = x @ d @ join_with d (y # ys)"

definition is_blank :: "char \<Rightarrow> bool" where
  \<comment> \<open>the source's test \<^verbatim>\<open>=== ' ' || === '\t'\<close>\<close>
  "is_blank c = (c = CHR '' '' \<or> c = TAB)"

definition is_digit :: "char \<Rightarrow> bool" where
  \<comment> \<open>the regular-expression class \<^verbatim>\<open>\d\<close>\<close>
  "is_digit c = (c \<in> set ''0123456789'')"

definition is_line_terminator :: "char \<Rightarrow> bool" where
  \<comment> \<open>what the regular-expression dot does not match, below 256\<close>
  "is_line_terminator c = (c = LF \<or> c = CR)"

fun replace_bpb :: "string \<Rightarrow> string" where
  \<comment> \<open>\<^verbatim>\<open>.replace(/bpb/g, 'pb')\<close>: leftmost non-overlapping occurrences\<close>
  "replace_bpb [] = []"
| "replace_bpb (c # cs) =
     (if take 3 (c # cs) = ''bpb'' then ''pb'' @ replace_bpb (drop 2 cs)
      else c # replace_bpb cs)"

fun prepend_zero :: "string \<Rightarrow> string" where
  \<comment> \<open>\<^verbatim>\<open>.replace(/(\d+)(?!.*\d)/, '0$1')\<close>: a zero goes before the first digit run
      that no digit follows on the same line; nothing changes when there is none\<close>
  "prepend_zero [] = []"
| "prepend_zero (c # cs) =
     (if is_digit c \<and>
         \<not> list_ex is_digit (takeWhile (\<lambda>x. \<not> is_line_terminator x) (dropWhile is_digit cs))
      then CHR ''0'' # c # cs
      else c # prepend_zero cs)"

definition match_digits :: "string \<Rightarrow> string option" where
  \<comment> \<open>\<^verbatim>\<open>.match(/\d+/)\<close>: the leftmost maximal digit run, or null\<close>
  "match_digits s =
     (let r = dropWhile (\<lambda>c. \<not> is_digit c) s
      in if r = [] then None else Some (takeWhile is_digit r))"

definition js_concat_match :: "string option \<Rightarrow> string" where
  \<comment> \<open>the string coercion of a match result in \<^verbatim>\<open>match + '.dat'\<close>\<close>
  "js_concat_match m = (case m of None \<Rightarrow> ''null'' | Some r \<Rightarrow> r)"

section \<open>The path library\<close>

text \<open>
  \<^verbatim>\<open>path.join\<close> and \<^verbatim>\<open>path.parse\<close> belong to the platform, not to the repository.
  They are modelled after the POSIX variant: \<^verbatim>\<open>join\<close> glues its non-empty arguments
  with a slash and normalises the result (empty and \<^verbatim>\<open>.\<close> segments vanish, \<^verbatim>\<open>..\<close>
  removes the segment before it), and \<^verbatim>\<open>parse(p).name\<close> is the last path component
  without its extension.
\<close>

fun normalizeString :: "bool \<Rightarrow> string list \<Rightarrow> string list \<Rightarrow> string list" where
  \<comment> \<open>the third argument is the stack of kept segments, last one first\<close>
  "normalizeString allowAboveRoot [] res = rev res"
| "normalizeString allowAboveRoot (s # ss) res =
     (if s = [] \<or> s = ''.'' then normalizeString allowAboveRoot ss res
      else if s = ''..'' then
        (case res of
           [] \<Rightarrow> normalizeString allowAboveRoot ss (if allowAboveRoot then [''..''] else [])
         | r # rs \<Rightarrow>
             if r \<noteq> ''..'' then normalizeString allowAboveRoot ss rs
             else normalizeString allowAboveRoot ss (if allowAboveRoot then ''..'' # res else res))
      else normalizeString allowAboveRoot ss (s # res))"

definition normalize :: "string \<Rightarrow> string" where
  "normalize p =
     (if p = [] then ''.''
      else
        let isAbsolute = (hd p = CHR ''/'');
            trailingSeparator = (last p = CHR ''/'');
            q = join_with ''/'' (normalizeString (\<not> isAbsolute) (split_on CHR ''/'' p) [])
        in if q = [] then (if isAbsolute then ''/'' else if trailingSeparator then ''./'' else ''.'')
           else (if isAbsolute then ''/'' else []) @ q @ (if trailingSeparator then ''/'' else []))"

definition path_join :: "string list \<Rightarrow> string" where
  "path_join args =
     (let parts = filter (\<lambda>a. a \<noteq> []) args
      in if parts = [] then ''.'' else normalize (join_with ''/'' parts))"

definition path_base :: "string \<Rightarrow> string" where
  \<comment> \<open>the last component, trailing slashes ignored\<close>
  "path_base p = rev (takeWhile (\<lambda>c. c \<noteq> CHR ''/'') (dropWhile (\<lambda>c. c = CHR ''/'') (rev p)))"

definition path_parse_name :: "string \<Rightarrow> string" where
  \<comment> \<open>\<^verbatim>\<open>path.parse(p).name\<close>: the base up to its last dot, unless that dot is the
      first character of the base or the base is \<^verbatim>\<open>..\<close>\<close>
  "path_parse_name p =
     (let base = path_base p;
          ext = rev (takeWhile (\<lambda>c. c \<noteq> CHR ''.'') (rev base));
          startDot = length base - length ext - 1
      in if CHR ''.'' \<notin> set base \<or> startDot = 0 \<or> base = ''..'' then base
         else take startDot base)"

section \<open>The packer's state and its collaborators\<close>

text \<open>
  The module-level variables \<^verbatim>\<open>pathMap\<close>, \<^verbatim>\<open>objectsPaths\<close>, \<^verbatim>\<open>objectsContents\<close> and
  \<^verbatim>\<open>unsupportedParts\<close> form the state that every call threads through. Two more fields
  record the effects on the outside world in the order they happen: the paths handed to
  \<^verbatim>\<open>fs.readFileSync\<close> and the identifiers sent to the lookup service.
  \<^verbatim>\<open>pathMap\<close> is a plain object used as a dictionary; it is modelled as a finite map on
  strings (keys inherited from the object prototype are not modelled).
\<close>

record state =
  pathMap :: "string \<rightharpoonup> string"
  objectsPaths :: "string list"
  objectsContents :: "string list"
  unsupportedParts :: "string list"
  reads :: "string list"
  fetches :: "string list"

definition initial :: state where
  "initial = \<lparr> pathMap = Map.empty, objectsPaths = [], objectsContents = [],
               unsupportedParts = [], reads = [], fetches = [] \<rparr>"

text \<open>
  The file system answers a read with the content or fails (\<open>None\<close>, the exception of
  \<^verbatim>\<open>readFileSync\<close>). The lookup service is seen through what
  \<^verbatim>\<open>data.results[0].external_ids.LDraw[0]\<close> does after the request for an identifier:
  the request or its decoding fails, the property access throws, or a value is read
  (\<open>None\<close> for \<^verbatim>\<open>undefined\<close>). The last field says at which paths \<^verbatim>\<open>writeFileSync\<close>
  succeeds; elsewhere it throws (a directory that does not exist, no permission).
\<close>

datatype reply = Fault | Shape_mismatch | First_id "string option"

record env =
  fs :: "string \<Rightarrow> string option"
  api :: "string \<Rightarrow> reply"
  canWrite :: "string \<Rightarrow> bool"

definition ldrawPath :: string where "ldrawPath = ''./''"
definition materialsFileName :: string where "materialsFileName = ''LDConfig.ldr''"
definition validExtensions :: "string list" where "validExtensions = [''.ldr'', ''.dat'', ''.mpd'']"

definition readFileSync :: "env \<Rightarrow> string \<Rightarrow> state \<Rightarrow> string option \<times> state" where
  "readFileSync e p st = (fs e p, st\<lparr>reads := reads st @ [p]\<rparr>)"

definition fetch :: "env \<Rightarrow> string \<Rightarrow> state \<Rightarrow> reply \<times> state" where
  "fetch e ident st = (api e ident, st\<lparr>fetches := fetches st @ [ident]\<rparr>)"

section \<open>fetchLDrawValue\<close>

definition fetchLDrawValue :: "env \<Rightarrow> string \<Rightarrow> state \<Rightarrow> string option \<times> state" where
  "fetchLDrawValue e partId st =
     (let stdId1 = replace_bpb partId;
          stdId2 = prepend_zero stdId1;
          (r1, st1) = fetch e stdId1 st
      in case r1 of
           Fault \<Rightarrow> (None, st1)
         | First_id v \<Rightarrow> (v, st1)
         | Shape_mismatch \<Rightarrow>
             (let (r2, st2) = fetch e stdId2 st1
              in case r2 of
                   Fault \<Rightarrow> (None, st2)
                 | First_id v \<Rightarrow> (v, st2)
                 | Shape_mismatch \<Rightarrow>
                     (None, st2\<lparr>unsupportedParts := unsupportedParts st2 @ [partId]\<rparr>)))"

section \<open>parseObject\<close>

text \<open>
  \<^verbatim>\<open>parseObject\<close> is one long function in the source. The model keeps its order and
  names its stretches: \<open>tryLocations\<close> is one pass of the \<^verbatim>\<open>attempt\<close> loop (the
  nested \<^verbatim>\<open>try\<close> blocks), \<open>processLine\<close> is the body of the loop over the lines,
  \<open>processContent\<close> builds the rewritten body, and \<open>rewriteObject\<close> is everything after
  the \<^verbatim>\<open>attempt\<close> loop. The recursive call is passed to the last three as a parameter.
\<close>

definition tryLocations :: "env \<Rightarrow> string \<Rightarrow> state \<Rightarrow> (string \<times> string) option \<times> state" where
  \<comment> \<open>the prefix in force and the content at the first read that succeeds\<close>
  "tryLocations e fileName st =
     (let prefix = (if startsWith fileName ''48/'' then ''p/''
                    else if startsWith fileName ''s/'' then ''parts/'' else []);
          (c0, st0) = readFileSync e (path_join [ldrawPath, fileName]) st
      in case c0 of
           Some c \<Rightarrow> (Some (prefix, c), st0)
         | None \<Rightarrow>
             (let (c1, st1) = readFileSync e (path_join [ldrawPath, ''parts/'', fileName]) st0
              in case c1 of
                   Some c \<Rightarrow> (Some (''parts/'', c), st1)
                 | None \<Rightarrow>
                     (let (c2, st2) = readFileSync e (path_join [ldrawPath, ''p/'', fileName]) st1
                      in case c2 of
                           Some c \<Rightarrow> (Some (''p/'', c), st2)
                         | None \<Rightarrow>
                             (let (c3, st3) =
                                    readFileSync e (path_join [ldrawPath, ''models/'', fileName]) st2
                              in case c3 of
                                   Some c \<Rightarrow> (Some (''models/'', c), st3)
                                 | None \<Rightarrow> (None, st3)))))"

definition skipWhile :: "(char \<Rightarrow> bool) \<Rightarrow> string \<Rightarrow> nat \<Rightarrow> nat" where
  \<comment> \<open>\<^verbatim>\<open>while ( P( line.charAt( charIndex ) ) && charIndex < lineLength ) charIndex ++\<close>\<close>
  "skipWhile P line charIndex = charIndex + length (takeWhile P (drop charIndex line))"

fun skipTokens :: "nat \<Rightarrow> string \<Rightarrow> nat \<Rightarrow> nat" where
  \<comment> \<open>the \<^verbatim>\<open>token\<close> loop, counted by the tokens still to skip\<close>
  "skipTokens 0 line charIndex = charIndex"
| "skipTokens (Suc k) line charIndex =
     (if charIndex < length line
      then skipTokens k line
             (skipWhile is_blank line (skipWhile (\<lambda>c. \<not> is_blank c) line charIndex))
      else charIndex)"

definition cached :: "state \<Rightarrow> string \<Rightarrow> string option" where
  \<comment> \<open>\<^verbatim>\<open>pathMap[ name ]\<close> when it is truthy\<close>
  "cached st name = (case pathMap st name of
                       None \<Rightarrow> None
                     | Some p \<Rightarrow> if p = [] then None else Some p)"

definition noteBoundary :: "string \<Rightarrow> state \<Rightarrow> state" where
  \<comment> \<open>a \<^verbatim>\<open>0 FILE\<close> line after the first: \<^verbatim>\<open>charIndex\<close> is 0 here, so the key is the whole line\<close>
  "noteBoundary line st =
     (let subobjectFileName = slashes (trim (drop 0 line))
      in if subobjectFileName \<noteq> [] \<and> cached st subobjectFileName = None
         then st\<lparr>pathMap := (pathMap st)(subobjectFileName \<mapsto> subobjectFileName)\<rparr>
         else st)"

type_synonym resolver = "string \<Rightarrow> state \<Rightarrow> (string \<times> state) option"

definition processLine :: "resolver \<Rightarrow> nat \<Rightarrow> string \<Rightarrow> state \<Rightarrow> (string \<times> state) option" where
  \<comment> \<open>the text that line \<open>i\<close> adds to \<^verbatim>\<open>processedObjectContent\<close>, and the state after it\<close>
  "processLine resolve i raw st =
     (let line = drop (skipWhile is_blank raw 0) raw
      in if startsWith line ''0 FILE '' \<and> i = 0 then Some ([], st)
         else
           let st1 = (if startsWith line ''0 FILE '' then noteBoundary line st else st)
           in if startsWith line ''1 '' then
                (let charIndex = skipTokens 13 line 2;
                     subobjectFileName = slashes (trim (drop charIndex line))
                 in if subobjectFileName \<noteq> [] then
                      (case (case cached st1 subobjectFileName of
                               Some p \<Rightarrow> Some (p, st1)
                             | None \<Rightarrow> resolve subobjectFileName st1) of
                         None \<Rightarrow> None
                       | Some (subobjectPath, st2) \<Rightarrow>
                           Some (take charIndex line @ subobjectPath @ [LF],
                                 st2\<lparr>pathMap := (pathMap st2)(subobjectPath \<mapsto> subobjectPath)\<rparr>))
                    else Some ([], st1))
              else Some (line @ [LF], st1))"

fun processLines ::
  "resolver \<Rightarrow> nat \<Rightarrow> string list \<Rightarrow> string \<Rightarrow> state \<Rightarrow> (string \<times> state) option" where
  "processLines resolve i [] processedObjectContent st = Some (processedObjectContent, st)"
| "processLines resolve i (l # ls) processedObjectContent st =
     (case processLine resolve i l st of
        None \<Rightarrow> None
      | Some (txt, st') \<Rightarrow> processLines resolve (Suc i) ls (processedObjectContent @ txt) st')"

definition processContent ::
  "resolver \<Rightarrow> string \<Rightarrow> bool \<Rightarrow> string \<Rightarrow> state \<Rightarrow> (string \<times> state) option" where
  \<comment> \<open>lines 208 to 314: the rewritten body of a document that was read. The source
      replaces the line ends only when it finds one; replacing always gives the same text.\<close>
  "processContent resolve objectPath isRoot objectContent st =
     processLines resolve 0 (split_on LF (replace_crlf objectContent))
       (if isRoot then [] else ''0 FILE '' @ objectPath @ [LF]) st"

definition rewriteObject ::
  "resolver \<Rightarrow> string \<Rightarrow> string \<Rightarrow> string option \<Rightarrow> bool \<Rightarrow> state \<Rightarrow> (string \<times> state) option" where
  "rewriteObject resolve prefix fileName objectContent isRoot st =
     (let objectPath = slashes (trim (path_join [prefix, fileName]))
      in case objectContent of
           None \<Rightarrow> Some (objectPath, st)
         | Some c \<Rightarrow>
             if c = [] then Some (objectPath, st)
             else
               (case processContent resolve objectPath isRoot c st of
                  None \<Rightarrow> None
                | Some (processedObjectContent, st') \<Rightarrow>
                    Some (objectPath,
                          if objectPath \<notin> set (objectsPaths st')
                          then st'\<lparr>objectsPaths := objectsPaths st' @ [objectPath],
                                   objectsContents := objectsContents st' @ [processedObjectContent]\<rparr>
                          else st')))"

definition degraded :: "string option \<Rightarrow> string \<Rightarrow> string" where
  \<comment> \<open>the file name chosen after the lookup: lines 173 to 180 of the source\<close>
  "degraded lDrawId partId =
     (case lDrawId of
        None \<Rightarrow> js_concat_match (match_digits partId) @ ''.dat''
      | Some v \<Rightarrow> if v = [] then js_concat_match (match_digits partId) @ ''.dat''
                  else v @ ''.dat'')"

text \<open>
  The recursion of the source has no bound of its own (a document that refers to itself
  never finishes), so the model counts the depth of nested calls: \<open>None\<close> says that the
  depth allowed was not enough. A nested call from a reference line passes no second
  argument, which reads as false.
\<close>

fun parseObject :: "env \<Rightarrow> nat \<Rightarrow> string \<Rightarrow> bool \<Rightarrow> state \<Rightarrow> (string \<times> state) option" where
  "parseObject e 0 fileName isRoot st = None"
| "parseObject e (Suc depth) fileName isRoot st =
     (let originalFileName = fileName;
          (found0, st0) = tryLocations e fileName st
      in case found0 of
           Some (prefix, c) \<Rightarrow>
             rewriteObject (\<lambda>n s. parseObject e depth n False s) prefix fileName (Some c) isRoot st0
         | None \<Rightarrow>
             (let fileName1 = toLowerCase fileName;
                  (found1, st1) = tryLocations e fileName1 st0
              in case found1 of
                   Some (prefix, c) \<Rightarrow>
                     rewriteObject (\<lambda>n s. parseObject e depth n False s)
                       prefix fileName1 (Some c) isRoot st1
                 | None \<Rightarrow>
                     if \<not> isRoot \<and> list_ex (endsWith originalFileName) validExtensions then
                       (let partId = path_parse_name originalFileName;
                            (lDrawId, st2) = fetchLDrawValue e partId st1
                        in parseObject e depth (degraded lDrawId partId) False st2)
                     else
                       rewriteObject (\<lambda>n s. parseObject e depth n False s)
                         [] fileName1 None isRoot st1))"

section \<open>packLDrawModel\<close>

datatype outcome = Aborted | Written string string

definition packedContent :: "string \<Rightarrow> state \<Rightarrow> string" where
  \<comment> \<open>the materials, a newline, the contents from the last index down to 0, a newline\<close>
  "packedContent materialsContent st =
     materialsContent @ [LF] @
     concat (map (\<lambda>i. objectsContents st ! i) (rev [0 ..< length (objectsPaths st)])) @ [LF]"

definition packLDrawModel :: "env \<Rightarrow> nat \<Rightarrow> string \<Rightarrow> (outcome \<times> state) option" where
  \<comment> \<open>\<open>Aborted\<close>: the promise is rejected (the materials cannot be read, or the write
      throws) and no output file exists;
      \<open>Written p c\<close>: \<^verbatim>\<open>writeFileSync\<close> has put the content \<open>c\<close> at the path \<open>p\<close>\<close>
  "packLDrawModel e depth fileName =
     (let (m, st) = readFileSync e (path_join [ldrawPath, materialsFileName]) initial
      in case m of
           None \<Rightarrow> Some (Aborted, st)
         | Some materialsContent \<Rightarrow>
             (case parseObject e depth fileName True st of
                None \<Rightarrow> None
              | Some (p, st') \<Rightarrow>
                  (let outPath = fileName @ ''_Packed.mpd''
                   in if canWrite e outPath
                      then Some (Written outPath (packedContent materialsContent st'), st')
                      else Some (Aborted, st'))))"

section \<open>Vocabulary of the specification\<close>

definition candidates :: "string \<Rightarrow> string list" where
  \<comment> \<open>the four locations of one pass, in the order of the nested \<^verbatim>\<open>try\<close> blocks\<close>
  "candidates fileName =
     [path_join [ldrawPath, fileName], path_join [ldrawPath, ''parts/'', fileName],
      path_join [ldrawPath, ''p/'', fileName], path_join [ldrawPath, ''models/'', fileName]]"

definition trailing_digit_run :: "string \<Rightarrow> string" where
  \<comment> \<open>the specification's words: the longest run of digits at the end of the identifier\<close>
  "trailing_digit_run s = rev (takeWhile is_digit (rev s))"

definition locate ::
  "env \<Rightarrow> string \<Rightarrow> state \<Rightarrow> (string \<times> string \<times> string) option \<times> state" where
  \<comment> \<open>the two passes of the \<^verbatim>\<open>attempt\<close> loop: the prefix, the file name as the pass
      had it and the content of the first read that succeeds\<close>
  "locate e fileName st =
     (case tryLocations e fileName st of
        (Some (prefix, c), st0) \<Rightarrow> (Some (prefix, fileName, c), st0)
      | (None, st0) \<Rightarrow>
          (case tryLocations e (toLowerCase fileName) st0 of
             (Some (prefix, c), st1) \<Rightarrow> (Some (prefix, toLowerCase fileName, c), st1)
           | (None, st1) \<Rightarrow> (None, st1)))"

definition falsy :: "string option \<Rightarrow> bool" where
  \<comment> \<open>the lookup gave nothing to use: the test \<^verbatim>\<open>!lDrawId\<close> of the source\<close>
  "falsy v = (v = None \<or> v = Some [])"

definition special_prefix :: "string \<Rightarrow> string" where
  \<comment> \<open>the prefix that a pass starts with\<close>
  "special_prefix fileName =
     (if startsWith fileName ''48/'' then ''p/''
      else if startsWith fileName ''s/'' then ''parts/'' else [])"

definition prefixes :: "string \<Rightarrow> string list" where
  \<comment> \<open>the prefix in force at each of the four candidates\<close>
  "prefixes fileName = [special_prefix fileName, ''parts/'', ''p/'', ''models/'']"

definition finish :: "bool \<Rightarrow> string list \<Rightarrow> string" where
  \<comment> \<open>the last step of \<open>normalize\<close> on a relative path: the kept segments joined,
      a lone dot when nothing is kept, the trailing separator put back\<close>
  "finish t segs =
     (let q = join_with ''/'' segs
      in if q = [] then (if t then ''./'' else ''.'') else q @ (if t then ''/'' else []))"

definition is_plain :: "string \<Rightarrow> bool" where
  \<comment> \<open>a line that the classifier takes for neither a file boundary nor a subpart reference\<close>
  "is_plain raw = (\<not> startsWith (dropWhile is_blank raw) ''0 FILE '' \<and>
                   \<not> startsWith (dropWhile is_blank raw) ''1 '')"

definition field_ok :: "string \<times> string \<Rightarrow> bool" where
  \<comment> \<open>a field with the white space after it: the field is not empty and has no blank,
      the gap is not empty and has only blanks\<close>
  "field_ok fw = (fst fw \<noteq> [] \<and> list_all (\<lambda>c. \<not> is_blank c) (fst fw) \<and>
                  snd fw \<noteq> [] \<and> list_all is_blank (snd fw))"

definition fields_text :: "(string \<times> string) list \<Rightarrow> string" where
  "fields_text fws = concat (map (\<lambda>fw. fst fw @ snd fw) fws)"

definition paths_inv :: "state \<Rightarrow> bool" where
  \<comment> \<open>no path is listed twice, and the two output sequences run in parallel\<close>
  "paths_inv st = (distinct (objectsPaths st) \<and>
                   length (objectsPaths st) = length (objectsContents st))"

definition grows :: "state \<Rightarrow> state \<Rightarrow> bool" where
  \<comment> \<open>the output sequences are only appended to, in pairs\<close>
  "grows st st' = (\<exists>ps cs. objectsPaths st' = objectsPaths st @ ps \<and>
                          objectsContents st' = objectsContents st @ cs \<and>
                          length ps = length cs)"

definition keeps :: "resolver \<Rightarrow> bool" where
  "keeps resolve = (\<forall>n s p s'. paths_inv s \<longrightarrow> resolve n s = Some (p, s') \<longrightarrow>
                                   paths_inv s' \<and> grows s s')"

section \<open>Example libraries\<close>

definition lib_null :: env where
  "lib_null = \<lparr> fs = map_of [(''parts/null.dat'', ''0 nothing'')],
     api = (\<lambda>q. Shape_mismatch), canWrite = (\<lambda>p. True) \<rparr>"

definition lib_brick :: env where
  "lib_brick = \<lparr> fs = map_of [(''parts/3001.dat'', ''0 Brick 2 x 4'')],
     api = (\<lambda>q. Shape_mismatch), canWrite = (\<lambda>p. True) \<rparr>"

definition lib_empty_list :: env where
  \<comment> \<open>the first request finds no field to read, the second one an empty list\<close>
  "lib_empty_list = \<lparr> fs = map_of [(''parts/3001.dat'', ''0 Brick 2 x 4'')],
       api = (\<lambda>q. if q = ''3001pr0001'' then Shape_mismatch else First_id None),
       canWrite = (\<lambda>p. True) \<rparr>"

definition lib_two :: env where
  "lib_two = \<lparr> fs = map_of [(''parts/4070.dat'', ''0 from parts''),
                           (''models/4070.dat'', ''0 from models'')],
     api = (\<lambda>q. Shape_mismatch), canWrite = (\<lambda>p. True) \<rparr>"

definition lib_bare :: env where
  \<comment> \<open>a working directory that holds the materials file and nothing else\<close>
  "lib_bare = \<lparr> fs = map_of [(''LDConfig.ldr'', ''0 materials'')],
     api = (\<lambda>q. Shape_mismatch), canWrite = (\<lambda>p. True) \<rparr>"

definition lib_nodir :: env where
  \<comment> \<open>the same directory; it has no subdirectory \<^verbatim>\<open>models\<close>, so nothing can be written there\<close>
  "lib_nodir = \<lparr> fs = map_of [(''LDConfig.ldr'', ''0 materials'')],
     api = (\<lambda>q. Shape_mismatch), canWrite = (\<lambda>p. \<not> startsWith p ''models/'') \<rparr>"

definition lib_hires :: env where
  "lib_hires = \<lparr> fs = map_of [(''48/1-4cyli.dat'', ''0 Hi-Res Cylinder 0.25'')],
     api = (\<lambda>q. Shape_mismatch), canWrite = (\<lambda>p. True) \<rparr>"

definition thirteen :: "(string \<times> string) list" where
  \<comment> \<open>the colour, the position and the nine matrix entries of a reference line\<close>
  "thirteen = [(''16'', '' ''), (''0'', '' ''), (''0'', '' ''), (''0'', '' ''),
               (''1'', '' ''), (''0'', '' ''), (''0'', '' ''),
               (''0'', '' ''), (''1'', '' ''), (''0'', '' ''),
               (''0'', '' ''), (''0'', '' ''), (''1'', ''  '')]"

definition lib_headed :: env where
  \<comment> \<open>two documents that open with a \<^verbatim>\<open>0 FILE\<close> line of their own\<close>
  "lib_headed = \<lparr> fs = map_of
       [(''parts/3001.dat'', ''0 FILE 3001.dat'' @ [CR, LF] @ ''0 Brick 2 x 4''),
        (''m.ldr'', ''0 FILE m.ldr'' @ [LF] @ ''0 Car'')],
     api = (\<lambda>q. Shape_mismatch), canWrite = (\<lambda>p. True) \<rparr>"

definition lib_indent :: env where
  "lib_indent = \<lparr> fs = map_of [(''m.ldr'', ''  0 hello'')],
     api = (\<lambda>q. Shape_mismatch), canWrite = (\<lambda>p. True) \<rparr>"

definition lib_short :: env where
  "lib_short = \<lparr> fs = map_of [(''m.ldr'', ''0 Car'' @ [LF] @ ''1 16 0 0 0 stud.dat'')],
     api = (\<lambda>q. Shape_mismatch), canWrite = (\<lambda>p. True) \<rparr>"

definition lib_shared :: env where
  "lib_shared = \<lparr> fs = map_of
      [(''LDConfig.ldr'', ''0 materials''),
       (''models/car.ldr'', ''1 4 0 0 0 1 0 0 0 1 0 0 0 1 left.ldr'' @ [LF] @
                            ''1 4 9 0 0 1 0 0 0 1 0 0 0 1 right.ldr''),
       (''models/left.ldr'', ''1 16 0 0 0 1 0 0 0 1 0 0 0 1 3001.dat''),
       (''models/right.ldr'', ''1 16 0 0 0 1 0 0 0 1 0 0 0 1 3001.dat''),
       (''parts/3001.dat'', ''0 Brick 2 x 4'')],
     api = (\<lambda>q. Shape_mismatch), canWrite = (\<lambda>p. True) \<rparr>"

section \<open>The local search and the lookup\<close>

lemma tryLocations_miss:
  assumes "\<forall>p \<in> set (candidates f). fs e p = None"
  shows "tryLocations e f st = (None, st\<lparr>reads := reads st @ candidates f\<rparr>)"
  using assms by (simp add: tryLocations_def candidates_def readFileSync_def)

lemma fetchLDrawValue_miss:
  assumes "api e (replace_bpb partId) = Shape_mismatch"
      and "api e (prepend_zero (replace_bpb partId)) = Shape_mismatch"
  shows "fetchLDrawValue e partId st =
           (None, st\<lparr>fetches := fetches st @ [replace_bpb partId, prepend_zero (replace_bpb partId)],
                      unsupportedParts := unsupportedParts st @ [partId]\<rparr>)"
  using assms by (simp add: fetchLDrawValue_def fetch_def Let_def)

lemma tryLocations_embedded:
  "tryLocations e f st = (r, st') \<Longrightarrow>
     objectsPaths st' = objectsPaths st \<and> objectsContents st' = objectsContents st"
  by (auto simp: tryLocations_def readFileSync_def Let_def split: option.splits)

lemma fetchLDrawValue_embedded:
  "fetchLDrawValue e partId st = (r, st') \<Longrightarrow>
     objectsPaths st' = objectsPaths st \<and> objectsContents st' = objectsContents st"
  by (auto simp: fetchLDrawValue_def fetch_def Let_def split: reply.splits)

lemma parseObject_fallback:
  assumes "\<forall>p \<in> set (candidates fileName). fs e p = None"
      and "\<forall>p \<in> set (candidates (toLowerCase fileName)). fs e p = None"
      and "list_ex (endsWith fileName) validExtensions"
  shows "parseObject e (Suc depth) fileName False st =
           (let partId = path_parse_name fileName;
                (lDrawId, st2) = fetchLDrawValue e partId
                   (st\<lparr>reads := reads st @ candidates fileName @ candidates (toLowerCase fileName)\<rparr>)
            in parseObject e depth (degraded lDrawId partId) False st2)"
  using assms(3) by (simp add: tryLocations_miss[OF assms(1)] tryLocations_miss[OF assms(2)])

lemma fetchLDrawValue_unsupported:
  "unsupportedParts (snd (fetchLDrawValue e partId st)) =
     unsupportedParts st @
       (if api e (replace_bpb partId) = Shape_mismatch \<and>
           api e (prepend_zero (replace_bpb partId)) = Shape_mismatch
        then [partId] else [])"
  by (auto simp: fetchLDrawValue_def fetch_def Let_def split: reply.splits)

lemma fetchLDrawValue_value:
  "fst (fetchLDrawValue e partId st) =
     (case api e (replace_bpb partId) of
        Fault \<Rightarrow> None
      | First_id v \<Rightarrow> v
      | Shape_mismatch \<Rightarrow>
          (case api e (prepend_zero (replace_bpb partId)) of
             Fault \<Rightarrow> None
           | First_id v \<Rightarrow> v
           | Shape_mismatch \<Rightarrow> None))"
  by (auto simp: fetchLDrawValue_def fetch_def Let_def split: reply.splits)

lemma degraded_falsy:
  "falsy v \<Longrightarrow> degraded v partId = js_concat_match (match_digits partId) @ ''.dat''"
  by (auto simp: falsy_def degraded_def)

lemma match_digits_none: "\<forall>c \<in> set s. \<not> is_digit c \<Longrightarrow> match_digits s = None"
  by (simp add: match_digits_def)

lemma match_digits_first_run:
  assumes "\<forall>c \<in> set pre. \<not> is_digit c" and "run \<noteq> []" and "\<forall>c \<in> set run. is_digit c"
      and "post = [] \<or> \<not> is_digit (hd post)"
  shows "match_digits (pre @ run @ post) = Some run"
proof -
  have "dropWhile (\<lambda>c. \<not> is_digit c) (pre @ run @ post) = run @ post"
    using assms(1,2,3) by (cases run) (simp_all add: dropWhile_append)
  moreover have "takeWhile is_digit (run @ post) = run"
    using assms(3,4) by (cases post) (simp_all add: takeWhile_append)
  ultimately show ?thesis using assms(2) by (simp add: match_digits_def)
qed

section \<open>The degraded default identifier\<close>

text \<open>
  C10. A reference that is not the root, ends in a recognised extension and has no decimal
  digit in its base name: when none of the eight local reads succeeds and both lookups
  miss, the name submitted for re-resolution is the literal \<^verbatim>\<open>null.dat\<close>.
\<close>

theorem degraded_null_dat:
  assumes "\<forall>p \<in> set (candidates fileName). fs e p = None"
      and "\<forall>p \<in> set (candidates (toLowerCase fileName)). fs e p = None"
      and "list_ex (endsWith fileName) validExtensions"
      and "\<forall>c \<in> set (path_parse_name fileName). \<not> is_digit c"
      and "api e (replace_bpb (path_parse_name fileName)) = Shape_mismatch"
      and "api e (prepend_zero (replace_bpb (path_parse_name fileName))) = Shape_mismatch"
  shows "parseObject e (Suc depth) fileName False st =
           parseObject e depth ''null.dat'' False
             (st\<lparr>reads := reads st @ candidates fileName @ candidates (toLowerCase fileName),
                 fetches := fetches st @ [replace_bpb (path_parse_name fileName),
                                          prepend_zero (replace_bpb (path_parse_name fileName))],
                 unsupportedParts := unsupportedParts st @ [path_parse_name fileName]\<rparr>)"
  using assms(4)
  by (simp add: parseObject_fallback[OF assms(1,2,3)] fetchLDrawValue_miss[OF assms(5,6)]
        degraded_def match_digits_none js_concat_match_def Let_def del: parseObject.simps)

theorem degraded_null_dat_witness:
  "list_all (\<lambda>p. fs lib_null p = None)
     (candidates ''stud.dat'' @ candidates (toLowerCase ''stud.dat'')) \<and>
   list_ex (endsWith ''stud.dat'') validExtensions \<and>
   \<not> list_ex is_digit (path_parse_name ''stud.dat'') \<and>
   api lib_null (replace_bpb (path_parse_name ''stud.dat'')) = Shape_mismatch \<and>
   api lib_null (prepend_zero (replace_bpb (path_parse_name ''stud.dat''))) = Shape_mismatch \<and>
   map_option fst (parseObject lib_null (Suc 1) ''stud.dat'' False initial) = Some ''parts/null.dat''"
proof -
  have h1: "\<forall>p \<in> set (candidates ''stud.dat''). fs lib_null p = None" by code_simp
  have h2: "\<forall>p \<in> set (candidates (toLowerCase ''stud.dat'')). fs lib_null p = None" by code_simp
  have h3: "list_ex (endsWith ''stud.dat'') validExtensions" by code_simp
  have h4: "\<forall>c \<in> set (path_parse_name ''stud.dat''). \<not> is_digit c" by code_simp
  have h5: "api lib_null (replace_bpb (path_parse_name ''stud.dat'')) = Shape_mismatch"
    by (simp add: lib_null_def)
  have h6: "api lib_null (prepend_zero (replace_bpb (path_parse_name ''stud.dat''))) = Shape_mismatch"
    by (simp add: lib_null_def)
  have again: "map_option fst (parseObject lib_null 1 ''null.dat'' False
      (initial\<lparr>reads := reads initial @ candidates ''stud.dat'' @ candidates (toLowerCase ''stud.dat''),
         fetches := fetches initial @ [replace_bpb (path_parse_name ''stud.dat''),
                                  prepend_zero (replace_bpb (path_parse_name ''stud.dat''))],
         unsupportedParts := unsupportedParts initial @ [path_parse_name ''stud.dat'']\<rparr>))
      = Some ''parts/null.dat''"
    by code_simp
  have "map_option fst (parseObject lib_null (Suc 1) ''stud.dat'' False initial) = Some ''parts/null.dat''"
    unfolding degraded_null_dat[OF h1 h2 h3 h4 h5 h6] by (rule again)
  moreover have "list_all (\<lambda>p. fs lib_null p = None)
     (candidates ''stud.dat'' @ candidates (toLowerCase ''stud.dat''))" by code_simp
  moreover have "\<not> list_ex is_digit (path_parse_name ''stud.dat'')" by code_simp
  ultimately show ?thesis using h3 h5 h6 by blast
qed

text \<open>
  C3, as the code has it. When the lookup gives no identifier, in whatever way (a field
  that is missing, an empty list of identifiers, a request that fails), the default name
  is the first digit run of the base name (the leftmost one, taken whole) followed by
  \<^verbatim>\<open>.dat\<close>. The first run is not the trailing one: \<^verbatim>\<open>12ab3456\<close> gives \<^verbatim>\<open>12.dat\<close>, not
  \<^verbatim>\<open>3456.dat\<close>. The base name is appended to \<^verbatim>\<open>unsupportedParts\<close>, once by that call of
  the lookup, exactly when both requests end in a property access that throws; a lookup
  that ends in an empty list or in a failed request appends nothing.
\<close>

theorem degraded_first_run:
  assumes "\<forall>p \<in> set (candidates fileName). fs e p = None"
      and "\<forall>p \<in> set (candidates (toLowerCase fileName)). fs e p = None"
      and "list_ex (endsWith fileName) validExtensions"
      and "path_parse_name fileName = pre @ run @ post"
      and "\<forall>c \<in> set pre. \<not> is_digit c" and "run \<noteq> []" and "\<forall>c \<in> set run. is_digit c"
      and "post = [] \<or> \<not> is_digit (hd post)"
      and "st1 = st\<lparr>reads := reads st @ candidates fileName @ candidates (toLowerCase fileName)\<rparr>"
      and "falsy (fst (fetchLDrawValue e (pre @ run @ post) st1))"
  shows "parseObject e (Suc depth) fileName False st =
           parseObject e depth (run @ ''.dat'') False
             (snd (fetchLDrawValue e (pre @ run @ post) st1)) \<and>
         unsupportedParts (snd (fetchLDrawValue e (pre @ run @ post) st1)) =
           unsupportedParts st @
             (if api e (replace_bpb (pre @ run @ post)) = Shape_mismatch \<and>
                 api e (prepend_zero (replace_bpb (pre @ run @ post))) = Shape_mismatch
              then [pre @ run @ post] else [])"
proof -
  have d: "degraded (fst (fetchLDrawValue e (pre @ run @ post) st1)) (pre @ run @ post) =
             run @ ''.dat''"
    by (simp add: degraded_falsy[OF assms(10)] match_digits_first_run[OF assms(5,6,7,8)]
          js_concat_match_def)
  have "parseObject e (Suc depth) fileName False st =
           parseObject e depth (run @ ''.dat'') False
             (snd (fetchLDrawValue e (pre @ run @ post) st1))"
    unfolding parseObject_fallback[OF assms(1,2,3)] assms(4) Let_def assms(9)[symmetric]
    using d by (simp add: case_prod_beta)
  moreover have "unsupportedParts st1 = unsupportedParts st" by (simp add: assms(9))
  ultimately show ?thesis by (simp add: fetchLDrawValue_unsupported)
qed

theorem degraded_first_run_witness:
  "list_all (\<lambda>p. fs lib_brick p = None)
     (candidates ''3001pr0001.dat'' @ candidates (toLowerCase ''3001pr0001.dat'')) \<and>
   list_ex (endsWith ''3001pr0001.dat'') validExtensions \<and>
   path_parse_name ''3001pr0001.dat'' = [] @ ''3001'' @ ''pr0001'' \<and>
   list_all is_digit ''3001'' \<and> \<not> is_digit (hd ''pr0001'') \<and>
   api lib_brick ''3001pr0001'' = Shape_mismatch \<and>
   api lib_brick ''3001pr00001'' = Shape_mismatch \<and>
   (case parseObject lib_brick (Suc 1) ''3001pr0001.dat'' False initial of
      None \<Rightarrow> False
    | Some (p, st) \<Rightarrow> p = ''parts/3001.dat'' \<and> unsupportedParts st = [''3001pr0001'']) \<and>
   api lib_empty_list ''3001pr0001'' = Shape_mismatch \<and>
   api lib_empty_list ''3001pr00001'' = First_id None \<and>
   (case parseObject lib_empty_list (Suc 1) ''3001pr0001.dat'' False initial of
      None \<Rightarrow> False
    | Some (p, st) \<Rightarrow> p = ''parts/3001.dat'' \<and> unsupportedParts st = [])"
proof -
  let ?partId = "[] @ ''3001'' @ ''pr0001''"
  let ?st1 = "initial\<lparr>reads := reads initial @ candidates ''3001pr0001.dat''
                                  @ candidates (toLowerCase ''3001pr0001.dat'')\<rparr>"
  have h3: "list_ex (endsWith ''3001pr0001.dat'') validExtensions" by code_simp
  have h4: "path_parse_name ''3001pr0001.dat'' = ?partId" by code_simp
  have h5: "\<forall>c \<in> set ([]::string). \<not> is_digit c" by simp
  have h6: "''3001'' \<noteq> []" by simp
  have h7: "\<forall>c \<in> set ''3001''. is_digit c" by code_simp
  have h8: "\<not> is_digit (hd ''pr0001'')" by code_simp
  have q1: "replace_bpb ?partId = ''3001pr0001''" by code_simp
  have q2: "prepend_zero ''3001pr0001'' = ''3001pr00001''" by code_simp
  have d: "list_all is_digit ''3001''" by code_simp

  have b1: "\<forall>p \<in> set (candidates ''3001pr0001.dat''). fs lib_brick p = None" by code_simp
  have b2: "\<forall>p \<in> set (candidates (toLowerCase ''3001pr0001.dat'')). fs lib_brick p = None"
    by code_simp
  have bl: "list_all (\<lambda>p. fs lib_brick p = None)
     (candidates ''3001pr0001.dat'' @ candidates (toLowerCase ''3001pr0001.dat''))" by code_simp
  have ba1: "api lib_brick ''3001pr0001'' = Shape_mismatch" by (simp add: lib_brick_def)
  have ba2: "api lib_brick ''3001pr00001'' = Shape_mismatch" by (simp add: lib_brick_def)
  have bf: "falsy (fst (fetchLDrawValue lib_brick ?partId ?st1))"
    unfolding fetchLDrawValue_value q1 q2 ba1 ba2 by (simp add: falsy_def)
  have bagain: "(case parseObject lib_brick 1 (''3001'' @ ''.dat'') False
                        (snd (fetchLDrawValue lib_brick ?partId ?st1)) of
      None \<Rightarrow> False
    | Some (p, st) \<Rightarrow> p = ''parts/3001.dat'' \<and> unsupportedParts st = [''3001pr0001''])"
    by code_simp
  have brick: "(case parseObject lib_brick (Suc 1) ''3001pr0001.dat'' False initial of
      None \<Rightarrow> False
    | Some (p, st) \<Rightarrow> p = ''parts/3001.dat'' \<and> unsupportedParts st = [''3001pr0001''])"
    unfolding degraded_first_run[OF b1 b2 h3 h4 h5 h6 h7 disjI2[OF h8] refl bf, THEN conjunct1]
    by (rule bagain)

  have e1: "\<forall>p \<in> set (candidates ''3001pr0001.dat''). fs lib_empty_list p = None" by code_simp
  have e2: "\<forall>p \<in> set (candidates (toLowerCase ''3001pr0001.dat'')). fs lib_empty_list p = None"
    by code_simp
  have ea1: "api lib_empty_list ''3001pr0001'' = Shape_mismatch"
    by (simp add: lib_empty_list_def)
  have ea2: "api lib_empty_list ''3001pr00001'' = First_id None"
    by (simp add: lib_empty_list_def)
  have ef: "falsy (fst (fetchLDrawValue lib_empty_list ?partId ?st1))"
    unfolding fetchLDrawValue_value q1 q2 ea1 ea2 by (simp add: falsy_def)
  have eagain: "(case parseObject lib_empty_list 1 (''3001'' @ ''.dat'') False
                        (snd (fetchLDrawValue lib_empty_list ?partId ?st1)) of
      None \<Rightarrow> False
    | Some (p, st) \<Rightarrow> p = ''parts/3001.dat'' \<and> unsupportedParts st = [])"
    by code_simp
  have empty: "(case parseObject lib_empty_list (Suc 1) ''3001pr0001.dat'' False initial of
      None \<Rightarrow> False
    | Some (p, st) \<Rightarrow> p = ''parts/3001.dat'' \<and> unsupportedParts st = [])"
    unfolding degraded_first_run[OF e1 e2 h3 h4 h5 h6 h7 disjI2[OF h8] refl ef, THEN conjunct1]
    by (rule eagain)
  from bl h3 h4 d h8 ba1 ba2 brick ea1 ea2 empty show ?thesis by blast
qed

theorem degraded_not_trailing_run:
  "degraded None (path_parse_name ''12ab3456.dat'') = ''12.dat'' \<and>
   trailing_digit_run (path_parse_name ''12ab3456.dat'') @ ''.dat'' = ''3456.dat''"
  by code_simp

section \<open>Candidate priority\<close>

text \<open>
  C5. Within a pass the four candidates are read in the fixed order root-relative,
  \<^verbatim>\<open>parts/\<close>, \<^verbatim>\<open>p/\<close>, \<^verbatim>\<open>models/\<close>. The first one that can be read wins with the prefix
  in force there (for the root-relative candidate the prefix of the \<^verbatim>\<open>48/\<close> and \<^verbatim>\<open>s/\<close>
  special cases), and the reads stop with it. At \<open>k = 1\<close> this says that a name found
  under \<^verbatim>\<open>parts/\<close> resolves there whatever \<^verbatim>\<open>models/\<close> holds.
\<close>

theorem priority_order:
  assumes "k < 4" and "fs e (candidates f ! k) = Some c"
      and "\<forall>j<k. fs e (candidates f ! j) = None"
  shows "tryLocations e f st =
           (Some (prefixes f ! k, c), st\<lparr>reads := reads st @ take (Suc k) (candidates f)\<rparr>)"
proof -
  consider "k = 0" | "k = 1" | "k = 2" | "k = 3" using assms(1) by linarith
  then show ?thesis
  proof cases
    case 1
    then show ?thesis using assms(2)
      by (simp add: tryLocations_def candidates_def prefixes_def special_prefix_def readFileSync_def)
  next
    case 2
    have "fs e (candidates f ! 0) = None" using assms(3) 2 by simp
    then show ?thesis using assms(2) 2
      by (simp add: tryLocations_def candidates_def prefixes_def readFileSync_def)
  next
    case 3
    have "fs e (candidates f ! 0) = None" "fs e (candidates f ! 1) = None"
      using assms(3) 3 by simp_all
    then show ?thesis using assms(2) 3
      by (simp add: tryLocations_def candidates_def prefixes_def readFileSync_def)
  next
    case 4
    have "fs e (candidates f ! 0) = None" "fs e (candidates f ! 1) = None"
         "fs e (candidates f ! 2) = None" using assms(3) 4 by simp_all
    then show ?thesis using assms(2) 4
      by (simp add: tryLocations_def candidates_def prefixes_def readFileSync_def)
  qed
qed

theorem priority_order_witness:
  "fs lib_two (candidates ''4070.dat'' ! 1) = Some ''0 from parts'' \<and>
   fs lib_two (candidates ''4070.dat'' ! 3) = Some ''0 from models'' \<and>
   fs lib_two (candidates ''4070.dat'' ! 0) = None \<and>
   tryLocations lib_two ''4070.dat'' initial =
     (Some (''parts/'', ''0 from parts''), initial\<lparr>reads := [''4070.dat'', ''parts/4070.dat'']\<rparr>)"
proof -
  have h2: "fs lib_two (candidates ''4070.dat'' ! 1) = Some ''0 from parts''" by code_simp
  have h0: "fs lib_two (candidates ''4070.dat'' ! 0) = None" by code_simp
  have h3: "\<forall>j<1. fs lib_two (candidates ''4070.dat'' ! j) = None" using h0 by simp
  have m: "fs lib_two (candidates ''4070.dat'' ! 3) = Some ''0 from models''" by code_simp
  have p: "prefixes ''4070.dat'' ! 1 = ''parts/''" by (simp add: prefixes_def)
  have t: "take (Suc 1) (candidates ''4070.dat'') = [''4070.dat'', ''parts/4070.dat'']"
    by code_simp
  have r: "reads initial = []" by (simp add: initial_def)
  have "tryLocations lib_two ''4070.dat'' initial =
     (Some (''parts/'', ''0 from parts''), initial\<lparr>reads := [''4070.dat'', ''parts/4070.dat'']\<rparr>)"
    using priority_order[of 1 lib_two "''4070.dat''" "''0 from parts''" initial, OF _ h2 h3]
    by (simp only: p t r append_Nil)
  with h2 m h0 show ?thesis by blast
qed

section \<open>A root that cannot be read\<close>

lemma parseObject_root_miss:
  assumes "\<forall>p \<in> set (candidates fileName). fs e p = None"
      and "\<forall>p \<in> set (candidates (toLowerCase fileName)). fs e p = None"
  shows "parseObject e (Suc depth) fileName True st =
           Some (slashes (trim (path_join [[], toLowerCase fileName])),
                 st\<lparr>reads := reads st @ candidates fileName @ candidates (toLowerCase fileName)\<rparr>)"
  by (simp add: tryLocations_miss[OF assms(1)] tryLocations_miss[OF assms(2)]
        rewriteObject_def Let_def)

text \<open>
  C2, as the code has it. When the materials file can be read and none of the eight reads
  for the root succeeds, the lookup service is never asked and nothing is embedded, but
  the missing root does not abort the run: \<^verbatim>\<open>writeFileSync\<close> is called all the same,
  with the materials and two newlines. The output file exists whenever that write
  succeeds; the run is aborted only when the write itself throws.
\<close>

theorem missing_root_still_written:
  assumes "fs e (path_join [ldrawPath, materialsFileName]) = Some materialsContent"
      and "\<forall>p \<in> set (candidates fileName). fs e p = None"
      and "\<forall>p \<in> set (candidates (toLowerCase fileName)). fs e p = None"
  shows "packLDrawModel e (Suc depth) fileName =
           Some (if canWrite e (fileName @ ''_Packed.mpd'')
                 then Written (fileName @ ''_Packed.mpd'') (materialsContent @ [LF, LF])
                 else Aborted,
                 initial\<lparr>reads := path_join [ldrawPath, materialsFileName] # candidates fileName
                                    @ candidates (toLowerCase fileName)\<rparr>)"
  using assms(1)
  by (simp add: packLDrawModel_def readFileSync_def parseObject_root_miss[OF assms(2,3)]
        packedContent_def initial_def Let_def del: parseObject.simps)

theorem missing_root_still_written_witness:
  "fs lib_bare (path_join [ldrawPath, materialsFileName]) = Some ''0 materials'' \<and>
   list_all (\<lambda>p. fs lib_bare p = None)
     (candidates ''Missing.LDR'' @ candidates (toLowerCase ''Missing.LDR'')) \<and>
   canWrite lib_bare ''Missing.LDR_Packed.mpd'' \<and>
   (case packLDrawModel lib_bare (Suc 0) ''Missing.LDR'' of
      None \<Rightarrow> False
    | Some (r, st) \<Rightarrow> r = Written ''Missing.LDR_Packed.mpd'' (''0 materials'' @ [LF, LF]) \<and>
                      fetches st = [] \<and> objectsPaths st = [] \<and>
                      reads st = [''LDConfig.ldr'', ''Missing.LDR'', ''parts/Missing.LDR'',
                                  ''p/Missing.LDR'', ''models/Missing.LDR'', ''missing.ldr'',
                                  ''parts/missing.ldr'', ''p/missing.ldr'', ''models/missing.ldr'']) \<and>
   \<not> canWrite lib_nodir ''models/car.ldr_Packed.mpd'' \<and>
   map_option fst (packLDrawModel lib_nodir (Suc 0) ''models/car.ldr'') = Some Aborted"
proof -
  have h1: "fs lib_bare (path_join [ldrawPath, materialsFileName]) = Some ''0 materials''"
    by code_simp
  have h2: "\<forall>p \<in> set (candidates ''Missing.LDR''). fs lib_bare p = None" by code_simp
  have h3: "\<forall>p \<in> set (candidates (toLowerCase ''Missing.LDR'')). fs lib_bare p = None"
    by code_simp
  have l: "list_all (\<lambda>p. fs lib_bare p = None)
     (candidates ''Missing.LDR'' @ candidates (toLowerCase ''Missing.LDR''))" by code_simp
  have w: "canWrite lib_bare ''Missing.LDR_Packed.mpd''" by (simp add: lib_bare_def)
  have r: "path_join [ldrawPath, materialsFileName] # candidates ''Missing.LDR''
             @ candidates (toLowerCase ''Missing.LDR'') =
           [''LDConfig.ldr'', ''Missing.LDR'', ''parts/Missing.LDR'',
            ''p/Missing.LDR'', ''models/Missing.LDR'', ''missing.ldr'',
            ''parts/missing.ldr'', ''p/missing.ldr'', ''models/missing.ldr'']" by code_simp
  have a: "(case packLDrawModel lib_bare (Suc 0) ''Missing.LDR'' of
      None \<Rightarrow> False
    | Some (r, st) \<Rightarrow> r = Written ''Missing.LDR_Packed.mpd'' (''0 materials'' @ [LF, LF]) \<and>
                      fetches st = [] \<and> objectsPaths st = [] \<and>
                      reads st = [''LDConfig.ldr'', ''Missing.LDR'', ''parts/Missing.LDR'',
                                  ''p/Missing.LDR'', ''models/Missing.LDR'', ''missing.ldr'',
                                  ''parts/missing.ldr'', ''p/missing.ldr'', ''models/missing.ldr''])"
    unfolding missing_root_still_written[OF h1 h2 h3] r using w by (simp add: initial_def)
  have g1: "fs lib_nodir (path_join [ldrawPath, materialsFileName]) = Some ''0 materials''"
    by code_simp
  have g2: "\<forall>p \<in> set (candidates ''models/car.ldr''). fs lib_nodir p = None" by code_simp
  have g3: "\<forall>p \<in> set (candidates (toLowerCase ''models/car.ldr'')). fs lib_nodir p = None"
    by code_simp
  have n: "\<not> canWrite lib_nodir ''models/car.ldr_Packed.mpd''" by code_simp
  have b: "map_option fst (packLDrawModel lib_nodir (Suc 0) ''models/car.ldr'') = Some Aborted"
    unfolding missing_root_still_written[OF g1 g2 g3] using n by simp
  from h1 l w a n b show ?thesis by blast
qed

theorem missing_root_counterexample:
  "fs lib_bare ''LDConfig.ldr'' = Some ''0 materials'' \<and>
   list_all (\<lambda>p. fs lib_bare p = None)
     (candidates ''car.ldr'' @ candidates (toLowerCase ''car.ldr'')) \<and>
   canWrite lib_bare ''car.ldr_Packed.mpd'' \<and>
   map_option fst (packLDrawModel lib_bare 1 ''car.ldr'') =
     Some (Written ''car.ldr_Packed.mpd'' (''0 materials'' @ [LF, LF]))"
  by code_simp

section \<open>Joined paths\<close>

lemma split_on_nonempty: "split_on d s \<noteq> []"
  by (induction s) (auto split: list.splits)

lemma split_on_sep: "d \<notin> set x \<Longrightarrow> split_on d (x @ d # y) = x # split_on d y"
  by (induction x) (auto split: list.splits simp: split_on_nonempty)

lemma normalizeString_shifted:
  assumes "x \<noteq> ''..''" and "b = a @ [x] \<or> a = b @ [''..'']"
  shows "normalizeString True ss b = x # normalizeString True ss a \<or>
         normalizeString True ss a = ''..'' # normalizeString True ss b"
  using assms(2)
proof (induction ss arbitrary: a b)
  case Nil
  then show ?case by auto
next
  case (Cons s ss)
  show ?case
  proof (cases "s = [] \<or> s = ''.''")
    case True
    then show ?thesis using Cons.IH[OF Cons.prems] by auto
  next
    case plain: False
    show ?thesis
    proof (cases "s = ''..''")
      case False
      have "s # b = (s # a) @ [x] \<or> s # a = (s # b) @ [''..'']" using Cons.prems by auto
      from Cons.IH[OF this] show ?thesis using plain False by simp
    next
      case up: True
      from Cons.prems show ?thesis
      proof
        assume b: "b = a @ [x]"
        show ?thesis
        proof (cases a)
          case Nil
          have "[''..''] = [] @ [''..'']" by simp
          then have "([]::string list) = [''..''] @ [x] \<or> [''..''] = [] @ [''..'']" by blast
          from Cons.IH[OF this] show ?thesis using up b Nil assms(1) by simp
        next
          case (Cons r rs)
          show ?thesis
          proof (cases "r = ''..''")
            case True
            have "''..'' # b = (''..'' # a) @ [x] \<or> ''..'' # a = (''..'' # b) @ [''..'']"
              using b by simp
            from Cons.IH[OF this] show ?thesis using up b Cons True by simp
          next
            case False
            have "rs @ [x] = rs @ [x] \<or> rs = (rs @ [x]) @ [''..'']" by simp
            from Cons.IH[OF this] show ?thesis using up b Cons False by simp
          qed
        qed
      next
        assume a: "a = b @ [''..'']"
        show ?thesis
        proof (cases b)
          case Nil
          have "[''..''] = [''..'', ''..''] @ [x] \<or> [''..'', ''..''] = [''..''] @ [''..'']" by simp
          from Cons.IH[OF this] show ?thesis using up a Nil by simp
        next
          case (Cons r rs)
          show ?thesis
          proof (cases "r = ''..''")
            case True
            have "''..'' # b = (''..'' # a) @ [x] \<or> ''..'' # a = (''..'' # b) @ [''..'']"
              using a by simp
            from Cons.IH[OF this] show ?thesis using up a Cons True by simp
          next
            case False
            have "rs = (rs @ [''..'']) @ [x] \<or> rs @ [''..''] = rs @ [''..'']" by simp
            from Cons.IH[OF this] show ?thesis using up a Cons False by simp
          qed
        qed
      qed
    qed
  qed
qed

lemma length_join_with_Cons:
  "length (join_with d (y # xs)) =
     length y + (if xs = [] then 0 else length d + length (join_with d xs))"
  by (cases xs) simp_all

lemma join_with_longer: "y \<noteq> [] \<Longrightarrow> length (join_with d xs) < length (join_with d (y # xs))"
  by (cases xs) simp_all


lemma normalize_relative:
  assumes "f \<noteq> []" and "CHR ''/'' \<notin> set x" and "x \<noteq> []"
  shows "normalize (x @ CHR ''/'' # f) =
           finish (last f = CHR ''/'') (normalizeString True (x # split_on CHR ''/'' f) [])"
proof -
  have "hd (x @ CHR ''/'' # f) \<noteq> CHR ''/''" using assms(2,3) by (cases x) auto
  moreover have "last (x @ CHR ''/'' # f) = last f" using assms(1) by simp
  ultimately show ?thesis using assms(2)
    by (simp add: normalize_def finish_def Let_def split_on_sep)
qed

lemma finish_differs:
  assumes "y \<noteq> []" and "y \<noteq> ''.''"
  shows "finish t (y # xs) \<noteq> finish t xs"
proof (cases "join_with ''/'' xs = []")
  case True
  have "join_with ''/'' (y # xs) \<noteq> ''.''"
    using assms by (cases xs) (auto simp: append_eq_Cons_conv)
  moreover have "join_with ''/'' (y # xs) \<noteq> []" using assms(1) by (cases xs) auto
  ultimately show ?thesis using True by (simp add: finish_def Let_def)
next
  case False
  have "length (join_with ''/'' xs) < length (join_with ''/'' (y # xs))"
    using assms(1) by (rule join_with_longer)
  moreover have "join_with ''/'' (y # xs) \<noteq> []" using assms(1) by (cases xs) auto
  ultimately show ?thesis using False by (auto simp: finish_def Let_def)
qed

lemma path_join_prefixed_differs:
  assumes "f \<noteq> []" and "x \<in> {''p'', ''parts''}"
  shows "path_join [ldrawPath, x @ ''/'', f] \<noteq> path_join [ldrawPath, f]"
proof -
  let ?ss = "split_on CHR ''/'' f"
  have x: "x \<noteq> []" "x \<noteq> ''.''" "x \<noteq> ''..''" "CHR ''/'' \<notin> set x" using assms(2) by auto
  have a: "path_join [ldrawPath, f] = finish (last f = CHR ''/'') (normalizeString True ?ss [])"
    using assms(1) normalize_relative[of "CHR ''/'' # f" "''.''"]
    by (simp add: path_join_def ldrawPath_def split_on_sep[of _ "[]", simplified])
  have b: "path_join [ldrawPath, x @ ''/'', f] =
             finish (last f = CHR ''/'') (normalizeString True ?ss [x])"
    using assms(1) x normalize_relative[of "CHR ''/'' # x @ CHR ''/'' # CHR ''/'' # f" "''.''"]
    by (simp add: path_join_def ldrawPath_def split_on_sep[of _ "[]", simplified] split_on_sep)
  have "[x] = [] @ [x] \<or> [] = [x] @ [''..'']" by simp
  from normalizeString_shifted[OF x(3) this, of ?ss]
  show ?thesis unfolding a b
  proof
    assume "normalizeString True ?ss [x] = x # normalizeString True ?ss []"
    then show "finish (last f = CHR ''/'') (normalizeString True ?ss [x]) \<noteq>
               finish (last f = CHR ''/'') (normalizeString True ?ss [])"
      using finish_differs[OF x(1,2)] by simp
  next
    assume "normalizeString True ?ss [] = ''..'' # normalizeString True ?ss [x]"
    then show "finish (last f = CHR ''/'') (normalizeString True ?ss [x]) \<noteq>
               finish (last f = CHR ''/'') (normalizeString True ?ss [])"
      using finish_differs[of "''..''" "last f = CHR ''/''" "normalizeString True ?ss [x]"] by simp
  qed
qed

lemma rewriteObject_path:
  assumes "rewriteObject resolve prefix f oc isRoot st = Some (r, st')"
  shows "r = slashes (trim (path_join [prefix, f]))"
  using assms by (auto simp: rewriteObject_def Let_def split: option.splits if_splits)

section \<open>The special prefixes\<close>

text \<open>
  C9. For a name that begins with \<^verbatim>\<open>48/\<close> or \<^verbatim>\<open>s/\<close> the first read is at the root-relative
  path, without a prefix. When that read succeeds it is the only read of the search; the
  prefix (\<^verbatim>\<open>p/\<close> for \<^verbatim>\<open>48/\<close>, else \<^verbatim>\<open>parts/\<close>) only enters the returned path, and the
  location under that prefix is not the one that was read.
\<close>

theorem special_prefix_only_names:
  assumes "startsWith f ''48/'' \<or> startsWith f ''s/''"
      and "fs e (path_join [ldrawPath, f]) = Some c"
  shows "tryLocations e f st =
           (Some (special_prefix f, c), st\<lparr>reads := reads st @ [path_join [ldrawPath, f]]\<rparr>) \<and>
         special_prefix f = (if startsWith f ''48/'' then ''p/'' else ''parts/'') \<and>
         path_join [ldrawPath, special_prefix f, f] \<noteq> path_join [ldrawPath, f] \<and>
         (\<forall>r st'. parseObject e (Suc depth) f isRoot st = Some (r, st') \<longrightarrow>
            r = slashes (trim (path_join [special_prefix f, f])))"
proof -
  have t: "tryLocations e f st =
           (Some (special_prefix f, c), st\<lparr>reads := reads st @ [path_join [ldrawPath, f]]\<rparr>)"
    using assms(2) by (simp add: tryLocations_def special_prefix_def readFileSync_def)
  have s: "special_prefix f = (if startsWith f ''48/'' then ''p/'' else ''parts/'')"
    using assms(1) by (auto simp: special_prefix_def)
  have "f \<noteq> []" using assms(1) by (auto simp: startsWith_def)
  then have d: "path_join [ldrawPath, special_prefix f, f] \<noteq> path_join [ldrawPath, f]"
    using path_join_prefixed_differs[of f "''p''"] path_join_prefixed_differs[of f "''parts''"]
    by (simp add: s)
  have "r = slashes (trim (path_join [special_prefix f, f]))"
    if "parseObject e (Suc depth) f isRoot st = Some (r, st')" for r st'
    using that by (simp add: t rewriteObject_path)
  with t s d show ?thesis by blast
qed

theorem special_prefix_only_names_witness:
  "startsWith ''48/1-4cyli.dat'' ''48/'' \<and>
   fs lib_hires (path_join [ldrawPath, ''48/1-4cyli.dat'']) = Some ''0 Hi-Res Cylinder 0.25'' \<and>
   tryLocations lib_hires ''48/1-4cyli.dat'' initial =
     (Some (''p/'', ''0 Hi-Res Cylinder 0.25''), initial\<lparr>reads := [''48/1-4cyli.dat'']\<rparr>) \<and>
   map_option fst (parseObject lib_hires (Suc 0) ''48/1-4cyli.dat'' False initial) =
     Some ''p/48/1-4cyli.dat''"
proof -
  have h1: "startsWith ''48/1-4cyli.dat'' ''48/''" by code_simp
  have h2: "fs lib_hires (path_join [ldrawPath, ''48/1-4cyli.dat'']) = Some ''0 Hi-Res Cylinder 0.25''"
    by code_simp
  have p: "special_prefix ''48/1-4cyli.dat'' = ''p/''" by code_simp
  have j: "path_join [ldrawPath, ''48/1-4cyli.dat''] = ''48/1-4cyli.dat''" by code_simp
  have r: "reads initial = []" by (simp add: initial_def)
  have "tryLocations lib_hires ''48/1-4cyli.dat'' initial =
     (Some (''p/'', ''0 Hi-Res Cylinder 0.25''), initial\<lparr>reads := [''48/1-4cyli.dat'']\<rparr>)"
    using special_prefix_only_names[OF disjI1[OF h1] h2, of initial 0 False, THEN conjunct1]
    by (simp only: p j r append_Nil)
  moreover have "map_option fst (parseObject lib_hires (Suc 0) ''48/1-4cyli.dat'' False initial) =
     Some ''p/48/1-4cyli.dat''" by code_simp
  ultimately show ?thesis using h1 h2 by blast
qed

section \<open>The lines of a document\<close>

lemma strip_leading: "drop (skipWhile is_blank raw 0) raw = dropWhile is_blank raw"
  by (simp add: skipWhile_def dropWhile_eq_drop)

lemma processLine_plain:
  assumes "is_plain raw"
  shows "processLine resolve i raw st = Some (dropWhile is_blank raw @ [LF], st)"
  using assms by (simp add: processLine_def strip_leading is_plain_def Let_def)

lemma processLines_texts:
  assumes "processLines resolve i ls acc st = Some (out, st')"
  shows "\<exists>txts. length txts = length ls \<and> out = acc @ concat txts \<and>
           (\<forall>k<length ls. is_plain (ls ! k) \<longrightarrow> txts ! k = dropWhile is_blank (ls ! k) @ [LF])"
  using assms
proof (induction ls arbitrary: i acc st)
  case Nil
  then show ?case by simp
next
  case (Cons l ls)
  from Cons.prems obtain piece s1 where
    l: "processLine resolve i l st = Some (piece, s1)" and
    r: "processLines resolve (Suc i) ls (acc @ piece) s1 = Some (out, st')"
    by (auto split: option.splits)
  from Cons.IH[OF r] obtain txts where
    t: "length txts = length ls" "out = (acc @ piece) @ concat txts"
       "\<forall>k<length ls. is_plain (ls ! k) \<longrightarrow> txts ! k = dropWhile is_blank (ls ! k) @ [LF]"
    by blast
  have "is_plain l \<Longrightarrow> piece = dropWhile is_blank l @ [LF]"
    using l by (simp add: processLine_plain)
  with t have "length (piece # txts) = length (l # ls) \<and> out = acc @ concat (piece # txts) \<and>
           (\<forall>k<length (l # ls). is_plain ((l # ls) ! k) \<longrightarrow>
              (piece # txts) ! k = dropWhile is_blank ((l # ls) ! k) @ [LF])"
    by (auto simp: nth_Cons split: nat.splits)
  then show ?case by blast
qed

lemma processLines_acc:
  "processLines resolve i ls acc st =
     map_option (\<lambda>(out, s). (acc @ out, s)) (processLines resolve i ls [] st)"
proof (induction ls arbitrary: i acc st)
  case Nil
  then show ?case by simp
next
  case (Cons l ls)
  show ?case
  proof (cases "processLine resolve i l st")
    case None
    then show ?thesis by simp
  next
    case (Some a)
    obtain piece s1 where a: "a = (piece, s1)" by (cases a)
    show ?thesis
      using Cons.IH[of "Suc i" "acc @ piece" s1] Cons.IH[of "Suc i" piece s1] Some a
      by (cases "processLines resolve (Suc i) ls [] s1") auto
  qed
qed

lemma processLine_first_boundary:
  assumes "startsWith (dropWhile is_blank l) ''0 FILE ''"
  shows "processLine resolve 0 l st = Some ([], st)"
  using assms by (simp add: processLine_def strip_leading Let_def)

text \<open>
  C7, as the code has it. A plain line reaches the rewritten body without its leading
  spaces and tabs, followed by a newline; nothing else of it changes. The lines are those
  of the content after every carriage-return and newline pair became a newline. The body
  is the header (empty for the root) followed by one piece of text for each line, and the
  piece of a plain line is the stripped line and a newline.
\<close>

theorem plain_lines_lose_indent:
  assumes "processContent resolve objectPath isRoot c st = Some (body, st')"
  shows "\<exists>txts. length txts = length (split_on LF (replace_crlf c)) \<and>
           body = (if isRoot then [] else ''0 FILE '' @ objectPath @ [LF]) @ concat txts \<and>
           (\<forall>k<length txts. is_plain (split_on LF (replace_crlf c) ! k) \<longrightarrow>
              txts ! k = dropWhile is_blank (split_on LF (replace_crlf c) ! k) @ [LF])"
  using processLines_texts[OF assms[unfolded processContent_def]] by metis

theorem plain_lines_lose_indent_witness:
  "processContent (\<lambda>n s. None) ''m.ldr'' True ''  0 hello'' initial =
     Some (''0 hello'' @ [LF], initial) \<and>
   (\<exists>pieces. length pieces = 1 \<and> ''0 hello'' @ [LF] = concat pieces \<and>
             pieces ! 0 = ''0 hello'' @ [LF])"
proof -
  have ls: "split_on LF (replace_crlf ''  0 hello'') = [''  0 hello'']" by code_simp
  have pl: "is_plain ''  0 hello''" by code_simp
  have sp: "dropWhile is_blank ''  0 hello'' = ''0 hello''" by code_simp
  have run: "processContent (\<lambda>n s. None) ''m.ldr'' True ''  0 hello'' initial =
     Some (''0 hello'' @ [LF], initial)"
    unfolding processContent_def ls by (simp add: processLine_plain[OF pl] is_blank_def)
  from plain_lines_lose_indent[OF run] obtain pieces where
    "length pieces = length (split_on LF (replace_crlf ''  0 hello''))"
    "''0 hello'' @ [LF] = (if True then [] else ''0 FILE '' @ ''m.ldr'' @ [LF]) @ concat pieces"
    "\<forall>k<length pieces. is_plain (split_on LF (replace_crlf ''  0 hello'') ! k) \<longrightarrow>
       pieces ! k = dropWhile is_blank (split_on LF (replace_crlf ''  0 hello'') ! k) @ [LF]"
    by blast
  then have "length pieces = 1 \<and> ''0 hello'' @ [LF] = concat pieces \<and>
             pieces ! 0 = ''0 hello'' @ [LF]"
    using pl sp by (simp add: ls)
  with run show ?thesis by blast
qed

theorem plain_line_counterexample:
  "is_plain ''  0 hello'' \<and>
   map_option (objectsContents \<circ> snd) (parseObject lib_indent 1 ''m.ldr'' True initial) =
     Some [''0 hello'' @ [LF]]"
  by code_simp

lemma parseObject_located:
  assumes "locate e f st = (Some (prefix, g, c), s0)"
  shows "parseObject e (Suc depth) f isRoot st =
           rewriteObject (\<lambda>n s. parseObject e depth n False s) prefix g (Some c) isRoot s0"
  using assms
  by (auto simp: locate_def Let_def split: prod.splits option.splits)

lemma locate_embedded:
  "objectsPaths (snd (locate e f st)) = objectsPaths st \<and>
   objectsContents (snd (locate e f st)) = objectsContents st"
  by (auto simp: locate_def split: prod.splits option.splits dest!: tryLocations_embedded)

lemma processLines_all_plain:
  "list_all is_plain ls \<Longrightarrow>
     processLines resolve i ls acc st =
       Some (acc @ concat (map (\<lambda>l. dropWhile is_blank l @ [LF]) ls), st)"
  by (induction ls arbitrary: i acc) (simp_all add: processLine_plain)

lemma processContent_header:
  "processContent resolve objectPath isRoot c st =
     map_option (\<lambda>(out, s). ((if isRoot then [] else ''0 FILE '' @ objectPath @ [LF]) @ out, s))
       (let ls = split_on LF (replace_crlf c)
        in if startsWith (dropWhile is_blank (hd ls)) ''0 FILE ''
           then processLines resolve 1 (tl ls) [] st
           else processLines resolve 0 ls [] st)"
proof -
  obtain l ls where s: "split_on LF (replace_crlf c) = l # ls"
    by (cases "split_on LF (replace_crlf c)") (simp_all add: split_on_nonempty)
  show ?thesis
    unfolding processContent_def s Let_def
    by (subst processLines_acc) (simp add: processLine_first_boundary)
qed

text \<open>
  C6. Take a call of \<^verbatim>\<open>parseObject\<close> whose search finds a document with content. The
  path it returns is the document's resolved path. The body it embeds under that path is
  a header followed by the text of the lines, where the header is empty for the root and
  is the line \<^verbatim>\<open>0 FILE\<close> with that same resolved path for any other document (every
  nested call is one). A \<^verbatim>\<open>0 FILE\<close> directive on the first line of the document adds
  nothing to the body and leaves the state alone: the text is that of the lines after it.
\<close>

theorem boundary_lines:
  assumes "locate e fileName st = (Some (prefix, g, c), s0)" and "c \<noteq> []"
  shows "parseObject e (Suc depth) fileName isRoot st =
           (let objectPath = slashes (trim (path_join [prefix, g]));
                ls = split_on LF (replace_crlf c)
            in case (if startsWith (dropWhile is_blank (hd ls)) ''0 FILE ''
                     then processLines (\<lambda>n s. parseObject e depth n False s) 1 (tl ls) [] s0
                     else processLines (\<lambda>n s. parseObject e depth n False s) 0 ls [] s0) of
                 None \<Rightarrow> None
               | Some (out, s1) \<Rightarrow>
                   Some (objectPath,
                         if objectPath \<notin> set (objectsPaths s1)
                         then s1\<lparr>objectsPaths := objectsPaths s1 @ [objectPath],
                                 objectsContents := objectsContents s1 @
                                   [(if isRoot then [] else ''0 FILE '' @ objectPath @ [LF]) @ out]\<rparr>
                         else s1))"
  unfolding parseObject_located[OF assms(1)] rewriteObject_def processContent_header
  using assms(2) by (auto simp: Let_def split: option.splits)

theorem boundary_lines_witness:
  "fst (locate lib_headed ''3001.dat'' initial) =
     Some (''parts/'', ''3001.dat'', ''0 FILE 3001.dat'' @ [CR, LF] @ ''0 Brick 2 x 4'') \<and>
   map_option (\<lambda>(p, st). (p, objectsPaths st, objectsContents st))
     (parseObject lib_headed (Suc 0) ''3001.dat'' False initial) =
     Some (''parts/3001.dat'', [''parts/3001.dat''],
           [''0 FILE parts/3001.dat'' @ [LF] @ ''0 Brick 2 x 4'' @ [LF]]) \<and>
   fst (locate lib_headed ''m.ldr'' initial) =
     Some ([], ''m.ldr'', ''0 FILE m.ldr'' @ [LF] @ ''0 Car'') \<and>
   map_option (\<lambda>(p, st). (p, objectsPaths st, objectsContents st))
     (parseObject lib_headed (Suc 0) ''m.ldr'' True initial) =
     Some (''m.ldr'', [''m.ldr''], [''0 Car'' @ [LF]])"
proof -
  let ?c1 = "''0 FILE 3001.dat'' @ [CR, LF] @ ''0 Brick 2 x 4''"
  let ?c2 = "''0 FILE m.ldr'' @ [LF] @ ''0 Car''"
  have f1: "fst (locate lib_headed ''3001.dat'' initial) = Some (''parts/'', ''3001.dat'', ?c1)"
    by code_simp
  have f2: "fst (locate lib_headed ''m.ldr'' initial) = Some ([], ''m.ldr'', ?c2)"
    by code_simp
  have l1: "locate lib_headed ''3001.dat'' initial =
              (Some (''parts/'', ''3001.dat'', ?c1), snd (locate lib_headed ''3001.dat'' initial))"
    using f1 by (metis prod.collapse)
  have l2: "locate lib_headed ''m.ldr'' initial =
              (Some ([], ''m.ldr'', ?c2), snd (locate lib_headed ''m.ldr'' initial))"
    using f2 by (metis prod.collapse)
  have n1: "?c1 \<noteq> []" and n2: "?c2 \<noteq> []" by simp_all
  have p1: "slashes (trim (path_join [''parts/'', ''3001.dat''])) = ''parts/3001.dat''"
    by code_simp
  have p2: "slashes (trim (path_join [[], ''m.ldr''])) = ''m.ldr''" by code_simp
  have s1: "split_on LF (replace_crlf ?c1) = [''0 FILE 3001.dat'', ''0 Brick 2 x 4'']"
    by code_simp
  have s2: "split_on LF (replace_crlf ?c2) = [''0 FILE m.ldr'', ''0 Car'']" by code_simp
  have b1: "startsWith (dropWhile is_blank ''0 FILE 3001.dat'') ''0 FILE ''" by code_simp
  have b2: "startsWith (dropWhile is_blank ''0 FILE m.ldr'') ''0 FILE ''" by code_simp
  have a1: "list_all is_plain [''0 Brick 2 x 4'']" by code_simp
  have a2: "list_all is_plain [''0 Car'']" by code_simp
  have t1: "concat (map (\<lambda>l. dropWhile is_blank l @ [LF]) [''0 Brick 2 x 4'']) =
              ''0 Brick 2 x 4'' @ [LF]" by code_simp
  have t2: "concat (map (\<lambda>l. dropWhile is_blank l @ [LF]) [''0 Car'']) = ''0 Car'' @ [LF]"
    by code_simp
  have i: "objectsPaths initial = []" "objectsContents initial = []"
    by (simp_all add: initial_def)
  have r1: "map_option (\<lambda>(p, st). (p, objectsPaths st, objectsContents st))
     (parseObject lib_headed (Suc 0) ''3001.dat'' False initial) =
     Some (''parts/3001.dat'', [''parts/3001.dat''],
           [''0 FILE parts/3001.dat'' @ [LF] @ ''0 Brick 2 x 4'' @ [LF]])"
    unfolding boundary_lines[OF l1 n1] Let_def p1 s1 list.sel if_P[OF b1]
      processLines_all_plain[OF a1] t1
    by (simp add: locate_embedded i)
  have r2: "map_option (\<lambda>(p, st). (p, objectsPaths st, objectsContents st))
     (parseObject lib_headed (Suc 0) ''m.ldr'' True initial) =
     Some (''m.ldr'', [''m.ldr''], [''0 Car'' @ [LF]])"
    unfolding boundary_lines[OF l2 n2] Let_def p2 s2 list.sel if_P[OF b2]
      processLines_all_plain[OF a2] t2
    by (simp add: locate_embedded i)
  from f1 r1 f2 r2 show ?thesis by blast
qed

section \<open>Reference lines\<close>

lemma skipWhile_run:
  assumes "\<forall>c \<in> set xs. P c" and "ys = [] \<or> \<not> P (hd ys)"
  shows "skipWhile P (pre @ xs @ ys) (length pre) = length pre + length xs"
proof -
  have "takeWhile P (xs @ ys) = xs"
    using assms by (cases ys) (simp_all add: takeWhile_append)
  then show ?thesis by (simp add: skipWhile_def)
qed

lemma skipTokens_end: "length line \<le> ci \<Longrightarrow> skipTokens k line ci = ci"
  by (cases k) simp_all

lemma fields_text_head:
  "fws \<noteq> [] \<Longrightarrow> list_all field_ok fws \<Longrightarrow> \<not> is_blank (hd (fields_text fws @ rest))"
  by (cases fws) (auto simp: fields_text_def field_ok_def list_all_iff neq_Nil_conv)

lemma skipTokens_fields:
  assumes "list_all field_ok fws" and "length fws \<le> k"
      and "if length fws = k then rest = [] \<or> \<not> is_blank (hd rest)
           else list_all (\<lambda>c. \<not> is_blank c) rest"
  shows "skipTokens k (pre @ fields_text fws @ rest) (length pre) =
           length pre + length (fields_text fws) + (if length fws = k then 0 else length rest)"
  using assms
proof (induction fws arbitrary: pre k)
  case Nil
  show ?case
  proof (cases k)
    case 0
    then show ?thesis by (simp add: fields_text_def)
  next
    case (Suc k')
    then have nb: "\<forall>c \<in> set rest. \<not> is_blank c" using Nil.prems by (simp add: list_all_iff)
    show ?thesis
    proof (cases "rest = []")
      case True
      then show ?thesis using Suc by (simp add: fields_text_def)
    next
      case False
      have a: "skipWhile (\<lambda>c. \<not> is_blank c) (pre @ rest) (length pre) = length pre + length rest"
        using skipWhile_run[of rest "\<lambda>c. \<not> is_blank c" "[]" pre] nb by simp
      have b: "skipWhile is_blank (pre @ rest) (length pre + length rest) = length pre + length rest"
        by (simp add: skipWhile_def)
      show ?thesis using Suc False
        by (simp add: fields_text_def a b skipTokens_end)
    qed
  qed
next
  case (Cons fw fws)
  obtain f w where fw: "fw = (f, w)" by (cases fw)
  from Cons.prems(2) obtain k' where k: "k = Suc k'" by (cases k) auto
  have ok: "f \<noteq> []" "\<forall>c \<in> set f. \<not> is_blank c" "w \<noteq> []" "\<forall>c \<in> set w. is_blank c"
    and oks: "list_all field_ok fws"
    using Cons.prems(1) fw by (simp_all add: field_ok_def list_all_iff)
  let ?tail = "fields_text fws @ rest"
  let ?line = "pre @ fields_text (fw # fws) @ rest"
  have line: "?line = pre @ f @ w @ ?tail" by (simp add: fields_text_def fw)
  have t: "?tail = [] \<or> \<not> is_blank (hd ?tail)"
  proof (cases "fws = []")
    case True
    then show ?thesis using Cons.prems(3) k
      by (cases rest) (auto simp: fields_text_def list_all_iff split: if_splits)
  next
    case False
    then show ?thesis using fields_text_head[OF False oks] by simp
  qed
  have a: "skipWhile (\<lambda>c. \<not> is_blank c) ?line (length pre) = length pre + length f"
    unfolding line using skipWhile_run[of f "\<lambda>c. \<not> is_blank c" "w @ ?tail" pre] ok
    by (cases w) auto
  have b: "skipWhile is_blank ?line (length pre + length f) = length (pre @ f) + length w"
    unfolding line using skipWhile_run[of w is_blank ?tail "pre @ f"] ok t by simp
  have c: "length pre < length ?line" unfolding line using ok(1) by simp
  have r: "if length fws = k' then rest = [] \<or> \<not> is_blank (hd rest)
           else list_all (\<lambda>c. \<not> is_blank c) rest"
    using Cons.prems(3) k by (simp split: if_splits)
  have le: "length fws \<le> k'" using Cons.prems(2) k by simp
  have "skipTokens k ?line (length pre) = skipTokens k' ?line (length (pre @ f @ w))"
    using k a b c by (simp add: add.assoc)
  also have "\<dots> = length (pre @ f @ w) + length (fields_text fws)
                    + (if length fws = k' then 0 else length rest)"
    unfolding line using Cons.IH[OF oks le r, of "pre @ f @ w"] by simp
  finally show ?case using k by (simp add: fields_text_def fw)
qed

lemma skipTokens_drop:
  assumes "list_all field_ok fws" and "length fws \<le> k"
      and "if length fws = k then rest = [] \<or> \<not> is_blank (hd rest)
           else list_all (\<lambda>c. \<not> is_blank c) rest"
  shows "drop (skipTokens k (pre @ fields_text fws @ rest) (length pre))
           (pre @ fields_text fws @ rest) = (if length fws = k then rest else [])"
  unfolding skipTokens_fields[OF assms] by simp

lemma skipTokens_take:
  assumes "list_all field_ok fws" and "length fws \<le> k"
      and "if length fws = k then rest = [] \<or> \<not> is_blank (hd rest)
           else list_all (\<lambda>c. \<not> is_blank c) rest"
  shows "take (skipTokens k (pre @ fields_text fws @ rest) (length pre))
           (pre @ fields_text fws @ rest) =
         (if length fws = k then pre @ fields_text fws else pre @ fields_text fws @ rest)"
  unfolding skipTokens_fields[OF assms] by simp

text \<open>
  C4, as the code has it. Take a line that, after its leading blanks, is the token \<^verbatim>\<open>1 \<close>
  followed at once by fields, each with white space after it, and a rest. With thirteen
  fields and a rest that is not empty after trimming, the rest (trimmed, backslashes
  turned) is the reference name and the line is rewritten to the token, the thirteen
  fields with their white space as they were, the resolved path and a newline. With fewer
  fields, or no name, the line adds nothing to the body: it is dropped, not passed on.
\<close>

theorem subpart_line:
  assumes "list_all is_blank lead" and "list_all field_ok fws" and "length fws \<le> 13"
      and "if length fws = 13 then rest = [] \<or> \<not> is_blank (hd rest)
           else list_all (\<lambda>c. \<not> is_blank c) rest"
  shows "processLine resolve i (lead @ ''1 '' @ fields_text fws @ rest) st =
           (if length fws = 13 \<and> slashes (trim rest) \<noteq> [] then
              (case (case cached st (slashes (trim rest)) of
                       Some p \<Rightarrow> Some (p, st)
                     | None \<Rightarrow> resolve (slashes (trim rest)) st) of
                 None \<Rightarrow> None
               | Some (p, st2) \<Rightarrow>
                   Some (''1 '' @ fields_text fws @ p @ [LF],
                         st2\<lparr>pathMap := (pathMap st2)(p \<mapsto> p)\<rparr>))
            else Some ([], st))"
proof -
  let ?line = "''1 '' @ fields_text fws @ rest"
  have s: "dropWhile is_blank (lead @ ?line) = ?line"
    using assms(1) by (simp add: dropWhile_append list_all_iff is_blank_def)
  have nf: "\<not> startsWith ?line ''0 FILE ''" by (simp add: startsWith_def)
  have one: "startsWith ?line ''1 ''" by (simp add: startsWith_def)
  have two: "length ''1 '' = (2::nat)" by simp
  have d: "drop (skipTokens 13 ?line 2) ?line = (if length fws = 13 then rest else [])"
    using skipTokens_drop[OF assms(2,3,4), of "''1 ''"] by (simp only: two)
  have t: "take (skipTokens 13 ?line 2) ?line =
             (if length fws = 13 then ''1 '' @ fields_text fws else ?line)"
    using skipTokens_take[OF assms(2,3,4), of "''1 ''"] by (simp only: two)
  show ?thesis
    unfolding processLine_def strip_leading s Let_def d t using nf one
    by (simp add: trim_def slashes_def split: option.splits)
qed

theorem subpart_line_witness:
  "list_all field_ok thirteen \<and> length thirteen = 13 \<and>
   map_option fst
     (processLine (\<lambda>n s. Some (''parts/'' @ n, s)) 1
        (''  '' @ ''1 '' @ fields_text thirteen @ ''3001.dat'') initial) =
   Some (''1 16 0 0 0 1 0 0 0 1 0 0 0 1  parts/3001.dat'' @ [LF])"
proof -
  have h1: "list_all is_blank ''  ''" by code_simp
  have h2: "list_all field_ok thirteen" by code_simp
  have h3: "length thirteen \<le> 13" by code_simp
  have l: "length thirteen = 13" by code_simp
  have h4: "if length thirteen = 13 then ''3001.dat'' = [] \<or> \<not> is_blank (hd ''3001.dat'')
           else list_all (\<lambda>c. \<not> is_blank c) ''3001.dat''" by code_simp
  have n: "slashes (trim ''3001.dat'') = ''3001.dat''" by code_simp
  have c: "cached initial ''3001.dat'' = None" by (simp add: cached_def initial_def)
  have f: "''1 '' @ fields_text thirteen = ''1 16 0 0 0 1 0 0 0 1 0 0 0 1  ''" by code_simp
  have "map_option fst
     (processLine (\<lambda>n s. Some (''parts/'' @ n, s)) 1
        (''  '' @ ''1 '' @ fields_text thirteen @ ''3001.dat'') initial) =
   Some (''1 16 0 0 0 1 0 0 0 1 0 0 0 1  parts/3001.dat'' @ [LF])"
    unfolding subpart_line[OF h1 h2 h3 h4] n l using c f by simp
  with h2 l show ?thesis by blast
qed

theorem short_line_counterexample:
  "map_option (objectsContents \<circ> snd) (parseObject lib_short 1 ''m.ldr'' True initial) =
     Some [''0 Car'' @ [LF]]"
  by code_simp

section \<open>The output sequences\<close>

lemma grows_refl: "grows st st"
  by (simp add: grows_def)

lemma grows_trans: "grows a b \<Longrightarrow> grows b c \<Longrightarrow> grows a c"
  unfolding grows_def by (elim exE conjE) (rule_tac x = "ps @ psa" in exI, rule_tac x = "cs @ csa" in exI, simp)

lemma same_embedded:
  assumes "objectsPaths st' = objectsPaths st" and "objectsContents st' = objectsContents st"
  shows "paths_inv st' = paths_inv st" and "grows st' s = grows st s" and "grows s st' = grows s st"
  using assms by (simp_all add: paths_inv_def grows_def)

lemma noteBoundary_embedded:
  "objectsPaths (noteBoundary l st) = objectsPaths st \<and>
   objectsContents (noteBoundary l st) = objectsContents st"
  by (simp add: noteBoundary_def Let_def)

lemma processLine_keeps:
  assumes res: "keeps resolve"
      and "paths_inv st" and "processLine resolve i l st = Some (piece, st')"
  shows "paths_inv st' \<and> grows st st'"
proof -
  let ?line = "drop (skipWhile is_blank l 0) l"
  let ?st1 = "if startsWith ?line ''0 FILE '' then noteBoundary ?line st else st"
  have e1: "objectsPaths ?st1 = objectsPaths st" "objectsContents ?st1 = objectsContents st"
    by (simp_all add: noteBoundary_embedded)
  have i1: "paths_inv ?st1" using assms(2) by (simp add: same_embedded(1)[OF e1])
  have g1: "grows st ?st1" by (simp add: same_embedded(3)[OF e1] grows_refl)
  show ?thesis
  proof (cases "startsWith ?line ''0 FILE '' \<and> i = 0")
    case True
    then show ?thesis using assms(2,3) by (simp add: processLine_def Let_def grows_refl)
  next
    case nf: False
    show ?thesis
    proof (cases "startsWith ?line ''1 ''")
      case False
      then have "st' = ?st1" using assms(3) nf by (auto simp: processLine_def Let_def)
      then show ?thesis using i1 g1 by simp
    next
      case True
      let ?name = "slashes (trim (drop (skipTokens 13 ?line 2) ?line))"
      show ?thesis
      proof (cases "?name = []")
        case True
        then have "st' = ?st1" using assms(3) nf \<open>startsWith ?line ''1 ''\<close>
          by (auto simp: processLine_def Let_def)
        then show ?thesis using i1 g1 by simp
      next
        case False
        from assms(3) nf \<open>startsWith ?line ''1 ''\<close> False obtain p s2 where
          r: "(case cached ?st1 ?name of Some p \<Rightarrow> Some (p, ?st1) | None \<Rightarrow> resolve ?name ?st1)
                = Some (p, s2)"
          and s: "st' = s2\<lparr>pathMap := (pathMap s2)(p \<mapsto> p)\<rparr>"
          by (auto simp: processLine_def Let_def split: option.splits)
        have "paths_inv s2 \<and> grows ?st1 s2"
        proof (cases "cached ?st1 ?name")
          case None
          then show ?thesis using r res i1 by (auto simp: keeps_def)
        next
          case (Some q)
          then show ?thesis using r i1 by (auto simp: grows_refl)
        qed
        then have "paths_inv s2" "grows st s2" using g1 grows_trans by blast+
        then show ?thesis using s by (simp add: paths_inv_def grows_def)
      qed
    qed
  qed
qed

lemma processLines_keeps:
  assumes res: "keeps resolve"
      and "paths_inv st" and "processLines resolve i ls acc st = Some (out, st')"
  shows "paths_inv st' \<and> grows st st'"
  using assms(2,3)
proof (induction ls arbitrary: i acc st)
  case Nil
  then show ?case by (simp add: grows_refl)
next
  case (Cons l ls)
  from Cons.prems(2) obtain piece s1 where
    a: "processLine resolve i l st = Some (piece, s1)" and
    b: "processLines resolve (Suc i) ls (acc @ piece) s1 = Some (out, st')"
    by (auto split: option.splits)
  from processLine_keeps[OF res Cons.prems(1) a] have c: "paths_inv s1" "grows st s1" by simp_all
  from Cons.IH[OF c(1) b] show ?case using c(2) grows_trans by blast
qed

lemma rewriteObject_keeps:
  assumes res: "keeps resolve"
      and "paths_inv st" and "rewriteObject resolve prefix f oc isRoot st = Some (p, st')"
  shows "paths_inv st' \<and> grows st st'"
proof (cases "oc = None \<or> oc = Some []")
  case True
  then have "st' = st" using assms(3) by (auto simp: rewriteObject_def Let_def)
  then show ?thesis using assms(2) by (simp add: grows_refl)
next
  case False
  then obtain c where c: "oc = Some c" "c \<noteq> []" by auto
  let ?path = "slashes (trim (path_join [prefix, f]))"
  from assms(3) c obtain body s1 where
    a: "processContent resolve ?path isRoot c st = Some (body, s1)" and
    b: "st' = (if ?path \<notin> set (objectsPaths s1)
               then s1\<lparr>objectsPaths := objectsPaths s1 @ [?path],
                       objectsContents := objectsContents s1 @ [body]\<rparr>
               else s1)"
    by (auto simp: rewriteObject_def Let_def split: option.splits)
  from processLines_keeps[OF res assms(2) a[unfolded processContent_def]]
  have k: "paths_inv s1" "grows st s1" by simp_all
  have "paths_inv st'" using k(1) b by (simp add: paths_inv_def)
  moreover have "grows s1 st'" using b by (simp add: grows_def)
  ultimately show ?thesis using k(2) grows_trans by blast
qed

lemma parseObject_keeps:
  assumes "paths_inv st" and "parseObject e depth f isRoot st = Some (p, st')"
  shows "paths_inv st' \<and> grows st st'"
  using assms
proof (induction depth arbitrary: f isRoot st p st')
  case 0
  then show ?case by simp
next
  case (Suc depth)
  have res: "keeps (\<lambda>n s. parseObject e depth n False s)"
    unfolding keeps_def using Suc.IH by blast
  obtain r0 s0 where t0: "tryLocations e f st = (r0, s0)" by (cases "tryLocations e f st")
  note e0 = tryLocations_embedded[OF t0]
  have i0: "paths_inv s0" using Suc.prems(1) e0 by (simp add: paths_inv_def)
  have g0: "grows st s0" using e0 by (simp add: grows_def)
  show ?case
  proof (cases r0)
    case (Some a)
    obtain prefix c where a: "a = (prefix, c)" by (cases a)
    from Suc.prems(2) t0 Some a have
      "rewriteObject (\<lambda>n s. parseObject e depth n False s) prefix f (Some c) isRoot s0 = Some (p, st')"
      by simp
    from rewriteObject_keeps[OF res i0 this] show ?thesis using g0 grows_trans by blast
  next
    case None
    obtain r1 s1 where t1: "tryLocations e (toLowerCase f) s0 = (r1, s1)"
      by (cases "tryLocations e (toLowerCase f) s0")
    note e1 = tryLocations_embedded[OF t1]
    have i1: "paths_inv s1" using i0 e1 by (simp add: paths_inv_def)
    have g1: "grows st s1" using g0 e1 by (simp add: grows_def)
    show ?thesis
    proof (cases r1)
      case (Some a)
      obtain prefix c where a: "a = (prefix, c)" by (cases a)
      from Suc.prems(2) t0 None t1 Some a have
        "rewriteObject (\<lambda>n s. parseObject e depth n False s) prefix (toLowerCase f) (Some c) isRoot s1
           = Some (p, st')"
        by (simp add: Let_def)
      from rewriteObject_keeps[OF res i1 this] show ?thesis using g1 grows_trans by blast
    next
      case miss: None
      show ?thesis
      proof (cases "\<not> isRoot \<and> list_ex (endsWith f) validExtensions")
        case False
        with Suc.prems(2) t0 None t1 miss have
          "rewriteObject (\<lambda>n s. parseObject e depth n False s) [] (toLowerCase f) None isRoot s1
             = Some (p, st')"
          by (auto simp: Let_def)
        from rewriteObject_keeps[OF res i1 this] show ?thesis using g1 grows_trans by blast
      next
        case True
        obtain v s2 where fe: "fetchLDrawValue e (path_parse_name f) s1 = (v, s2)"
          by (cases "fetchLDrawValue e (path_parse_name f) s1")
        note e2 = fetchLDrawValue_embedded[OF fe]
        have i2: "paths_inv s2" using i1 e2 by (simp add: paths_inv_def)
        have g2: "grows st s2" using g1 e2 by (simp add: grows_def)
        from Suc.prems(2) t0 None t1 miss True fe have
          "parseObject e depth (degraded v (path_parse_name f)) False s2 = Some (p, st')"
          by (auto simp: Let_def)
        from Suc.IH[OF i2 this] show ?thesis using g2 grows_trans by blast
      qed
    qed
  qed
qed

text \<open>
  C8. Whatever \<^verbatim>\<open>parseObject\<close> is called on, from a state whose \<^verbatim>\<open>objectsPaths\<close> has no
  duplicate and is as long as \<^verbatim>\<open>objectsContents\<close>: when the call returns, both still
  hold, the two sequences have only been appended to, by equally many entries, and a
  resolved path that was listed before the call is not among the new entries. The state
  at the start of a run is such a state.
\<close>

theorem embedded_once:
  assumes "paths_inv st" and "parseObject e depth fileName isRoot st = Some (p, st')"
  shows "distinct (objectsPaths st') \<and>
         length (objectsPaths st') = length (objectsContents st') \<and>
         (\<exists>ps cs. objectsPaths st' = objectsPaths st @ ps \<and>
                  objectsContents st' = objectsContents st @ cs \<and>
                  length ps = length cs \<and>
                  (p \<in> set (objectsPaths st) \<longrightarrow> p \<notin> set ps))"
proof -
  from parseObject_keeps[OF assms] have i: "paths_inv st'" and g: "grows st st'" by simp_all
  from g obtain ps cs where
    a: "objectsPaths st' = objectsPaths st @ ps" "objectsContents st' = objectsContents st @ cs"
       "length ps = length cs"
    unfolding grows_def by blast
  have "p \<notin> set ps" if "p \<in> set (objectsPaths st)"
    using that i a(1) by (auto simp: paths_inv_def)
  with i a show ?thesis unfolding paths_inv_def by blast
qed

theorem embedded_once_witness:
  "paths_inv initial \<and>
   (\<exists>p st'. parseObject lib_shared 3 ''models/car.ldr'' True initial = Some (p, st') \<and>
             distinct (objectsPaths st') \<and>
             length (objectsPaths st') = length (objectsContents st'))"
proof -
  have i: "paths_inv initial" by (simp add: paths_inv_def initial_def)
  have "\<not> Option.is_none (parseObject lib_shared 3 ''models/car.ldr'' True initial)"
    by code_simp
  then obtain p st' where
    r: "parseObject lib_shared 3 ''models/car.ldr'' True initial = Some (p, st')"
    by (auto simp: Option.is_none_def)
  from embedded_once[OF i r] have
    "distinct (objectsPaths st') \<and> length (objectsPaths st') = length (objectsContents st')"
    by blast
  with i r show ?thesis by blast
qed

section \<open>The path cache\<close>

text \<open>
  C1. The cache is looked up under the reference name and filled under the resolved path,
  so a name that differs from its resolved path is resolved again at every reference. In
  the library below \<^verbatim>\<open>3001.dat\<close> is referenced by two documents: both lines are
  rewritten to \<^verbatim>\<open>parts/3001.dat\<close> and the part is embedded once, but its file is read
  twice, after the root-relative location was tried twice.
\<close>

theorem shared_part_read_twice:
  "map_option (\<lambda>(p, st). (count_list (reads st) ''parts/3001.dat'', count_list (reads st) ''3001.dat'',
                           objectsPaths st, objectsContents st))
     (parseObject lib_shared 3 ''models/car.ldr'' True initial) =
   Some (2, 2,
         [''parts/3001.dat'', ''models/left.ldr'', ''models/right.ldr'', ''models/car.ldr''],
         [''0 FILE parts/3001.dat'' @ [LF] @ ''0 Brick 2 x 4'' @ [LF],
          ''0 FILE models/left.ldr'' @ [LF] @ ''1 16 0 0 0 1 0 0 0 1 0 0 0 1 parts/3001.dat'' @ [LF],
          ''0 FILE models/right.ldr'' @ [LF] @ ''1 16 0 0 0 1 0 0 0 1 0 0 0 1 parts/3001.dat'' @ [LF],
          ''1 4 0 0 0 1 0 0 0 1 0 0 0 1 models/left.ldr'' @ [LF] @
          ''1 4 9 0 0 1 0 0 0 1 0 0 0 1 models/right.ldr'' @ [LF]])"
  by code_simp

end
